theory Spec2Isabelle
  imports Complex_Main "HOL-Library.AList"
begin

section \<open>JavaScript values used by the task orchestrator\<close>

text \<open>
  An optional string (\<open>x?: string\<close>) is a \<open>string option\<close>; \<open>None\<close> is \<open>undefined\<close>.
  A condition \<open>if (x)\<close> on such a value holds when the value is neither \<open>undefined\<close>
  nor the empty string.
\<close>

fun truthy :: "string option \<Rightarrow> bool" where
  "truthy None = False"
| "truthy (Some s) = (s \<noteq> [])"

text \<open>What a template literal \<open>`${x}`\<close> prints for an optional string.\<close>

fun str :: "string option \<Rightarrow> string" where
  "str None = ''undefined''"
| "str (Some s) = s"

text \<open>\<open>Number.prototype.toString\<close> on a non-negative integer: its decimal digits.\<close>

definition digit :: "nat \<Rightarrow> char" where
  "digit d = ''0123456789'' ! d"

fun toString :: "nat \<Rightarrow> string" where
  "toString n = (if n < 10 then [digit n] else toString (n div 10) @ [digit (n mod 10)])"

declare toString.simps [simp del]

text \<open>\<open>String.prototype.repeat\<close>.\<close>

fun repeat :: "string \<Rightarrow> nat \<Rightarrow> string" where
  "repeat s 0 = []"
| "repeat s (Suc n) = s @ repeat s n"

section \<open>The task tree store (\<open>TaskOrchestrator\<close>, src/lib.ts)\<close>

text \<open>
  \<open>TaskStatus\<close> is a union of string literals, so a status is a string at run time;
  \<open>restoreState\<close> copies whatever string the snapshot holds and \<open>getStatusIcon\<close>
  has a default branch.
\<close>

type_synonym TaskStatus = string

record Task =
  t_id :: string
  t_description :: string
  t_status :: TaskStatus
  t_parentId :: "string option"
  t_notes :: "string option"
  t_result :: "string option"
  t_subtasks :: "string list"

text \<open>
  The private \<open>tasks: Map<string, Task>\<close> is an association list in insertion order.
  \<open>Map.set\<close> is \<open>AList.update\<close> (an existing key keeps its position, a new key goes
  to the end), \<open>Map.get\<close> is \<open>map_of\<close>, \<open>Map.size\<close> is \<open>length\<close>, and
  \<open>Map.clear\<close> leaves \<open>[]\<close>. Every Task object is held by the map under one key only, so
  a mutation of an object fetched by \<open>get\<close> is an update of the entry under that key.
\<close>

record TaskOrchestrator =
  tasks :: "(string \<times> Task) list"
  rootTaskId :: "string option"

definition new_TaskOrchestrator :: TaskOrchestrator where
  "new_TaskOrchestrator = \<lparr>tasks = [], rootTaskId = None\<rparr>"

datatype error =
    NoActivePlan
  | ParentNotFound "string option"
  | TaskNotFound string
  | InvalidState
  | TypeError

text \<open>The \<open>message\<close> of the thrown \<open>Error\<close>; the text of an engine's TypeError is not fixed.\<close>

fun message :: "error \<Rightarrow> string" where
  "message NoActivePlan = ''No plan exists. Create a plan first.''"
| "message (ParentNotFound p) = ''Parent task '' @ str p @ '' not found.''"
| "message (TaskNotFound i) = ''Task '' @ i @ '' not found.''"
| "message InvalidState = ''Invalid state to restore''"
| "message TypeError = ''TypeError''"

definition createPlan :: "string \<Rightarrow> TaskOrchestrator \<Rightarrow> string \<times> TaskOrchestrator" where
  "createPlan goal S =
     (let rootTask = \<lparr>t_id = ''1'', t_description = goal, t_status = ''pending'',
                       t_parentId = None, t_notes = None, t_result = None, t_subtasks = []\<rparr>
      in (''Plan created with root task ID: 1. Goal: '' @ goal,
          \<lparr>tasks = AList.update (t_id rootTask) rootTask [], rootTaskId = Some (t_id rootTask)\<rparr>))"

text \<open>
  In \<open>addTask\<close> the parent object is fetched before \<open>tasks.set(newId, newTask)\<close> and
  mutated after it. When the new id is the key the parent was fetched under, \<open>set\<close> has
  replaced the parent's entry and the \<open>push\<close> lands on an object the map no longer holds.
\<close>

definition addTask ::
  "string \<Rightarrow> string option \<Rightarrow> string option \<Rightarrow> TaskOrchestrator \<Rightarrow> error + (string \<times> TaskOrchestrator)" where
  "addTask description parentId notes S =
     (if \<not> truthy (rootTaskId S) then Inl NoActivePlan
      else
        let newId = toString (length (tasks S) + 1);
            parentKey = (if truthy parentId then the parentId else the (rootTaskId S))
        in case map_of (tasks S) parentKey of
             None \<Rightarrow> Inl (ParentNotFound parentId)
           | Some parent \<Rightarrow>
               let newTask = \<lparr>t_id = newId, t_description = description, t_status = ''pending'',
                                t_parentId = Some (t_id parent), t_notes = notes, t_result = None,
                                t_subtasks = []\<rparr>;
                   tasks1 = AList.update newId newTask (tasks S);
                   tasks2 = (if parentKey = newId then tasks1
                             else AList.update parentKey
                                    (parent\<lparr>t_subtasks := t_subtasks parent @ [newId]\<rparr>) tasks1)
               in Inr (''Added task '' @ newId @ '': '' @ [CHR 0x22] @ description @ [CHR 0x22]
                         @ '' to parent '' @ t_id parent,
                       S\<lparr>tasks := tasks2\<rparr>))"

record TaskUpdates =
  u_status :: "TaskStatus option"
  u_description :: "string option"
  u_notes :: "string option"
  u_result :: "string option"

definition updateTask ::
  "string \<Rightarrow> TaskUpdates \<Rightarrow> TaskOrchestrator \<Rightarrow> error + (string \<times> TaskOrchestrator)" where
  "updateTask i updates S =
     (case map_of (tasks S) i of
        None \<Rightarrow> Inl (TaskNotFound i)
      | Some task \<Rightarrow>
          let task1 = (if truthy (u_status updates) then task\<lparr>t_status := the (u_status updates)\<rparr> else task);
              task2 = (if truthy (u_description updates)
                       then task1\<lparr>t_description := the (u_description updates)\<rparr> else task1);
              task3 = (if truthy (u_notes updates)
                       then task2\<lparr>t_notes :=
                              (if truthy (u_notes updates)
                               then (if truthy (t_notes task2)
                                     then Some (the (t_notes task2) @ [CHR 0x0A] @ the (u_notes updates))
                                     else u_notes updates)
                               else t_notes task2)\<rparr>
                       else task2);
              task4 = (if truthy (u_result updates) then task3\<lparr>t_result := u_result updates\<rparr> else task3)
          in Inr (''Updated task '' @ i @ ''. New status: '' @ t_status task4,
                  S\<lparr>tasks := AList.update i task4 (tasks S)\<rparr>))"

subsection \<open>The exported snapshot\<close>

text \<open>
  \<open>getPlanState\<close> returns either the object \<open>{error: "No plan active"}\<close> or a tree of
  plain objects with the fields \<open>id, description, status, notes, result, subtasks\<close>.
\<close>

datatype TaskNode =
  TaskNode (n_id: string) (n_description: string) (n_status: TaskStatus)
           (n_notes: "string option") (n_result: "string option") (n_subtasks: "TaskNode list")

datatype PlanState = ErrorState | TreeState TaskNode

text \<open>
  A traversal of the map from the root recurses for as long as \<open>subtasks\<close> lead on, so it
  is given fuel: \<open>None\<close> is a recursion that has not returned within the fuel,
  \<open>Some (Inl e)\<close> a throw, \<open>Some (Inr v)\<close> a return. \<open>forEach\<close> and \<open>map\<close> visit the
  elements from left to right and stop at the first that does not return.
\<close>

fun collect :: "('a \<Rightarrow> (error + 'b) option) \<Rightarrow> 'a list \<Rightarrow> (error + 'b list) option" where
  "collect f [] = Some (Inr [])"
| "collect f (x # xs) =
     (case f x of
        None \<Rightarrow> None
      | Some (Inl e) \<Rightarrow> Some (Inl e)
      | Some (Inr y) \<Rightarrow>
          (case collect f xs of
             None \<Rightarrow> None
           | Some (Inl e) \<Rightarrow> Some (Inl e)
           | Some (Inr ys) \<Rightarrow> Some (Inr (y # ys))))"

primrec buildTree :: "nat \<Rightarrow> (string \<times> Task) list \<Rightarrow> string \<Rightarrow> (error + TaskNode) option" where
  "buildTree 0 = (\<lambda>m taskId. None)"
| "buildTree (Suc n) = (\<lambda>m taskId.
     case map_of m taskId of
       None \<Rightarrow> Some (Inl TypeError)
     | Some task \<Rightarrow>
         (case collect (buildTree n m) (t_subtasks task) of
            None \<Rightarrow> None
          | Some (Inl e) \<Rightarrow> Some (Inl e)
          | Some (Inr kids) \<Rightarrow>
              Some (Inr (TaskNode (t_id task) (t_description task) (t_status task)
                                  (t_notes task) (t_result task) kids))))"

definition getPlanState :: "nat \<Rightarrow> TaskOrchestrator \<Rightarrow> (error + PlanState) option" where
  "getPlanState fuel S =
     (if \<not> truthy (rootTaskId S) then Some (Inr ErrorState)
      else case buildTree fuel (tasks S) (the (rootTaskId S)) of
             None \<Rightarrow> None
           | Some (Inl e) \<Rightarrow> Some (Inl e)
           | Some (Inr t) \<Rightarrow> Some (Inr (TreeState t)))"

subsection \<open>Rendering\<close>

text \<open>The icons are the UTF-8 bytes of the glyphs in the source.\<close>

definition getStatusIcon :: "TaskStatus \<Rightarrow> string" where
  "getStatusIcon status =
     (if status = ''completed'' then [CHR 0xE2, CHR 0x9C, CHR 0x85]
      else if status = ''in_progress'' then [CHR 0xF0, CHR 0x9F, CHR 0x94, CHR 0x84]
      else if status = ''failed'' then [CHR 0xE2, CHR 0x9D, CHR 0x8C]
      else if status = ''skipped'' then [CHR 0xE2, CHR 0x8F, CHR 0xAD, CHR 0xEF, CHR 0xB8, CHR 0x8F]
      else [CHR 0xE2, CHR 0xAD, CHR 0x95])"

text \<open>The text one call of \<open>printTask\<close> appends for the task itself, before its subtasks.\<close>

definition printLines ::
  "nat \<Rightarrow> string \<Rightarrow> string \<Rightarrow> TaskStatus \<Rightarrow> string option \<Rightarrow> string option \<Rightarrow> string" where
  "printLines depth i description status notes result =
     (let indent = repeat ''  '' depth;
          icon = getStatusIcon status
      in indent @ icon @ '' ['' @ i @ ''] '' @ description @ '' ('' @ status @ '')'' @ [CHR 0x0A]
         @ (if truthy result then indent @ ''    Result: '' @ the result @ [CHR 0x0A] else [])
         @ (if truthy notes then indent @ ''    Notes: '' @ the notes @ [CHR 0x0A] else []))"

primrec printTask :: "nat \<Rightarrow> (string \<times> Task) list \<Rightarrow> string \<Rightarrow> nat \<Rightarrow> (error + string) option" where
  "printTask 0 = (\<lambda>m taskId depth. None)"
| "printTask (Suc n) = (\<lambda>m taskId depth.
     case map_of m taskId of
       None \<Rightarrow> Some (Inl TypeError)
     | Some task \<Rightarrow>
         (case collect (\<lambda>subId. printTask n m subId (depth + 1)) (t_subtasks task) of
            None \<Rightarrow> None
          | Some (Inl e) \<Rightarrow> Some (Inl e)
          | Some (Inr outs) \<Rightarrow>
              Some (Inr (printLines depth (t_id task) (t_description task) (t_status task)
                           (t_notes task) (t_result task) @ concat outs))))"

definition formatPlan :: "nat \<Rightarrow> TaskOrchestrator \<Rightarrow> (error + string) option" where
  "formatPlan fuel S =
     (if \<not> truthy (rootTaskId S) then Some (Inr ''No active plan.'')
      else case printTask fuel (tasks S) (the (rootTaskId S)) 0 of
             None \<Rightarrow> None
           | Some (Inl e) \<Rightarrow> Some (Inl e)
           | Some (Inr out) \<Rightarrow> Some (Inr (''Current Plan Status:'' @ [CHR 0x0A] @ out)))"

subsection \<open>Restoring a snapshot\<close>

fun restoreTask :: "TaskNode \<Rightarrow> string option \<Rightarrow> TaskOrchestrator \<Rightarrow> TaskOrchestrator"
  and restoreSubtasks :: "TaskNode list \<Rightarrow> string \<Rightarrow> TaskOrchestrator \<Rightarrow> TaskOrchestrator" where
  "restoreTask (TaskNode i d s nt r subs) parentId S =
     (let task = \<lparr>t_id = i, t_description = d, t_status = s, t_parentId = parentId,
                   t_notes = nt, t_result = r, t_subtasks = []\<rparr>;
          S1 = S\<lparr>tasks := AList.update i task (tasks S)\<rparr>;
          S2 = (if \<not> truthy parentId then S1\<lparr>rootTaskId := Some i\<rparr>
                else case map_of (tasks S1) (the parentId) of
                       None \<Rightarrow> S1
                     | Some parent \<Rightarrow>
                         S1\<lparr>tasks := AList.update (the parentId)
                                        (parent\<lparr>t_subtasks := t_subtasks parent @ [i]\<rparr>) (tasks S1)\<rparr>)
      in restoreSubtasks subs i S2)"
| "restoreSubtasks [] parentId S = S"
| "restoreSubtasks (c # cs) parentId S = restoreSubtasks cs parentId (restoreTask c (Some parentId) S)"

definition restoreState :: "PlanState option \<Rightarrow> TaskOrchestrator \<Rightarrow> error + (string \<times> TaskOrchestrator)" where
  "restoreState state S =
     (case state of
        None \<Rightarrow> Inl InvalidState
      | Some ErrorState \<Rightarrow> Inl InvalidState
      | Some (TreeState taskData) \<Rightarrow>
          let S' = restoreTask taskData None (S\<lparr>tasks := [], rootTaskId := None\<rparr>)
          in Inr (''State restored successfully. Plan has '' @ toString (length (tasks S')) @ '' task(s).'',
                  S'))"

section \<open>Similarity search (\<open>findBestMatches\<close>, build/utils/similarity.js)\<close>

text \<open>
  \<open>semanticSimilarity\<close> computes its score in floating point; it is taken as a parameter,
  a function from the query and a candidate text to the score read as a real number.
  The comparator \<open>(a, b) => b.score - a.score\<close> sorts by descending score and
  \<open>Array.prototype.sort\<close> is stable, as \<open>sort_key\<close> is.
\<close>

definition findBestMatches ::
  "(string \<Rightarrow> string \<Rightarrow> real) \<Rightarrow> string \<Rightarrow> 'a list \<Rightarrow> ('a \<Rightarrow> string) \<Rightarrow> nat \<Rightarrow> ('a \<times> real) list" where
  "findBestMatches semanticSimilarity query items getText limit =
     filter (\<lambda>result. snd result > 0.1)
       (take limit
          (sort_key (\<lambda>result. - snd result)
             (map (\<lambda>item. (item, semanticSimilarity query (getText item))) items)))"

section \<open>The checkpoint store (\<open>CheckpointManager\<close>, src/evaluator.ts)\<close>

record Checkpoint =
  cp_id :: string
  cp_name :: string
  cp_description :: "string option"
  cp_state :: "PlanState option"
  cp_timestamp :: nat

text \<open>
  The manager holds the orchestrator it was constructed with; \<open>nextId\<close> starts at 1.
\<close>

record CheckpointManager =
  orchestrator :: TaskOrchestrator
  checkpoints :: "Checkpoint list"
  nextId :: nat

definition new_CheckpointManager :: "TaskOrchestrator \<Rightarrow> CheckpointManager" where
  "new_CheckpointManager orch = \<lparr>orchestrator = orch, checkpoints = [], nextId = 1\<rparr>"

text \<open>\<open>JSON.parse(JSON.stringify(state))\<close> rebuilds every object and array of the snapshot.\<close>

fun clone_node :: "TaskNode \<Rightarrow> TaskNode" where
  "clone_node (TaskNode i d s nt r subs) = TaskNode i d s nt r (map clone_node subs)"

fun json_clone :: "PlanState \<Rightarrow> PlanState" where
  "json_clone ErrorState = ErrorState"
| "json_clone (TreeState t) = TreeState (clone_node t)"

text \<open>
  \<open>nextId++\<close> runs before \<open>getPlanState\<close>, so a throw of \<open>getPlanState\<close> leaves the
  counter advanced. \<open>now\<close> is the value of \<open>Date.now()\<close>.
\<close>

definition createCheckpoint ::
  "nat \<Rightarrow> string \<Rightarrow> string option \<Rightarrow> nat \<Rightarrow> CheckpointManager
   \<Rightarrow> ((error \<times> CheckpointManager) + (string \<times> CheckpointManager)) option" where
  "createCheckpoint fuel name description now M =
     (let i = ''cp_'' @ toString (nextId M);
          M1 = M\<lparr>nextId := nextId M + 1\<rparr>
      in case getPlanState fuel (orchestrator M1) of
           None \<Rightarrow> None
         | Some (Inl e) \<Rightarrow> Some (Inl (e, M1))
         | Some (Inr state) \<Rightarrow>
             let checkpoint = \<lparr>cp_id = i, cp_name = name, cp_description = description,
                                cp_state = Some (json_clone state), cp_timestamp = now\<rparr>
             in Some (Inr (i, M1\<lparr>checkpoints := checkpoints M1 @ [checkpoint]\<rparr>)))"

definition listCheckpoints :: "CheckpointManager \<Rightarrow> (string \<times> string \<times> string option) list" where
  "listCheckpoints M = map (\<lambda>cp. (cp_id cp, cp_name cp, cp_description cp)) (checkpoints M)"

definition getCheckpoint :: "string \<Rightarrow> CheckpointManager \<Rightarrow> Checkpoint option" where
  "getCheckpoint checkpointId M = find (\<lambda>cp. cp_id cp = checkpointId) (checkpoints M)"

definition getText :: "Checkpoint \<Rightarrow> string" where
  "getText cp = (if truthy (cp_description cp) then cp_name cp @ '' '' @ the (cp_description cp)
                 else cp_name cp)"

text \<open>The first half of \<open>restoreCheckpoint\<close>: which checkpoint the arguments resolve to.\<close>

definition resolveCheckpoint ::
  "(string \<Rightarrow> string \<Rightarrow> real) \<Rightarrow> string option \<Rightarrow> string option \<Rightarrow> Checkpoint list \<Rightarrow> Checkpoint option" where
  "resolveCheckpoint semanticSimilarity checkpointId description cps =
     (if truthy checkpointId then find (\<lambda>cp. cp_id cp = the checkpointId) cps
      else if truthy description then
        (case findBestMatches semanticSimilarity (the description) cps getText 1 of
           [] \<Rightarrow> None
         | m # _ \<Rightarrow> if snd m > 0.3 then Some (fst m) else None)
      else None)"

record RestoreResult =
  r_success :: bool
  r_message :: string

text \<open>The test \<open>!state || state.error\<close> of \<open>restoreState\<close> and \<open>restoreCheckpoint\<close>.\<close>

fun invalid_state :: "PlanState option \<Rightarrow> bool" where
  "invalid_state None = True"
| "invalid_state (Some ErrorState) = True"
| "invalid_state (Some (TreeState t)) = False"

text \<open>
  A call that may throw returns \<open>Inr\<close> its value or \<open>Inl\<close> the error thrown, each with
  the state the call leaves. \<open>try { body } catch (error) { handler }\<close> runs the handler,
  on the state the body left, when the body throws.
\<close>

definition try_catch ::
  "(error \<times> 's) + ('a \<times> 's) \<Rightarrow> (error \<Rightarrow> 's \<Rightarrow> (error \<times> 's) + ('a \<times> 's)) \<Rightarrow> (error \<times> 's) + ('a \<times> 's)" where
  "try_catch body handler = (case body of Inl (e, s) \<Rightarrow> handler e s | Inr r \<Rightarrow> Inr r)"

text \<open>
  The second half, with the orchestrator's \<open>restoreState\<close> method as the parameter
  \<open>restore\<close>: the method returns its text or throws, and in both cases leaves a store,
  which is the manager's orchestrator from then on. The lookup and the first \<open>return\<close>
  stand before the \<open>try\<close> block; the test of the state, the call of \<open>restoreState\<close> and
  the second \<open>return\<close> stand inside it.
\<close>

definition restoreCheckpoint_via ::
  "(PlanState option \<Rightarrow> TaskOrchestrator \<Rightarrow> (error \<times> TaskOrchestrator) + (string \<times> TaskOrchestrator))
   \<Rightarrow> (string \<Rightarrow> string \<Rightarrow> real) \<Rightarrow> string option \<Rightarrow> string option \<Rightarrow> CheckpointManager
   \<Rightarrow> (error \<times> CheckpointManager) + (RestoreResult \<times> CheckpointManager)" where
  "restoreCheckpoint_via restore semanticSimilarity checkpointId description M =
     (case resolveCheckpoint semanticSimilarity checkpointId description (checkpoints M) of
        None \<Rightarrow>
          Inr (\<lparr>r_success = False,
                r_message = (if truthy checkpointId
                             then ''Checkpoint '' @ the checkpointId @ '' not found.''
                             else ''No checkpoint found matching: '' @ str description)\<rparr>, M)
      | Some checkpoint \<Rightarrow>
          try_catch
            (let cpState = cp_state checkpoint
             in if invalid_state cpState
                then Inr (\<lparr>r_success = False,
                           r_message = ''Checkpoint '' @ [CHR 0x22] @ cp_name checkpoint @ [CHR 0x22]
                                       @ '' has invalid state.''\<rparr>, M)
                else (case restore cpState (orchestrator M) of
                        Inl (e, S') \<Rightarrow> Inl (e, M\<lparr>orchestrator := S'\<rparr>)
                      | Inr (txt, S') \<Rightarrow>
                          Inr (\<lparr>r_success = True,
                                r_message = ''Checkpoint '' @ [CHR 0x22] @ cp_name checkpoint
                                            @ [CHR 0x22] @ '' restored successfully.''\<rparr>,
                               M\<lparr>orchestrator := S'\<rparr>)))
            (\<lambda>error M'.
               Inr (\<lparr>r_success = False,
                     r_message = ''Error restoring checkpoint: '' @ message error\<rparr>, M')))"

text \<open>
  The \<open>restoreState\<close> of the task tree store on a snapshot tree throws at its first
  statement or not at all, so a throw leaves the store as it was.
\<close>

definition restoreState_call ::
  "PlanState option \<Rightarrow> TaskOrchestrator \<Rightarrow> (error \<times> TaskOrchestrator) + (string \<times> TaskOrchestrator)" where
  "restoreState_call state S = (case restoreState state S of Inl e \<Rightarrow> Inl (e, S) | Inr r \<Rightarrow> Inr r)"

definition restoreCheckpoint ::
  "(string \<Rightarrow> string \<Rightarrow> real) \<Rightarrow> string option \<Rightarrow> string option \<Rightarrow> CheckpointManager
   \<Rightarrow> (error \<times> CheckpointManager) + (RestoreResult \<times> CheckpointManager)" where
  "restoreCheckpoint = restoreCheckpoint_via restoreState_call"

definition clear :: "CheckpointManager \<Rightarrow> CheckpointManager" where
  "clear M = M\<lparr>checkpoints := [], nextId := 1\<rparr>"

section \<open>The rendering of a snapshot, as the specification words it\<close>

text \<open>
  The rendering of an exported tree in depth-first pre-order: the line of a task is
  indented two spaces per depth level; the \<open>Result:\<close> and \<open>Notes:\<close> lines, written for
  a non-empty result and non-empty notes, are indented \<open>extra\<close> spaces more than the line
  of their task. "One extra indent level" is \<open>extra = 2\<close>.
\<close>

definition task_line :: "nat \<Rightarrow> TaskNode \<Rightarrow> string" where
  "task_line depth t =
     replicate (2 * depth) CHR '' '' @ getStatusIcon (n_status t) @ '' ['' @ n_id t @ ''] ''
       @ n_description t @ '' ('' @ n_status t @ '')'' @ [CHR 0x0A]"

definition detail_line :: "nat \<Rightarrow> string \<Rightarrow> string option \<Rightarrow> string" where
  "detail_line spaces label v =
     (if truthy v then replicate spaces CHR '' '' @ label @ the v @ [CHR 0x0A] else [])"

fun render_tree :: "nat \<Rightarrow> nat \<Rightarrow> TaskNode \<Rightarrow> string" where
  "render_tree extra depth (TaskNode i d s nt r subs) =
     task_line depth (TaskNode i d s nt r subs)
       @ detail_line (2 * depth + extra) ''Result: '' r
       @ detail_line (2 * depth + extra) ''Notes: '' nt
       @ concat (map (render_tree extra (depth + 1)) subs)"

text \<open>The result of a traversal with \<open>g\<close> applied to the value returned.\<close>

definition map_outcome :: "('a \<Rightarrow> 'b) \<Rightarrow> (error + 'a) option \<Rightarrow> (error + 'b) option" where
  "map_outcome g r = (case r of None \<Rightarrow> None | Some (Inl e) \<Rightarrow> Some (Inl e) | Some (Inr v) \<Rightarrow> Some (Inr (g v)))"

section \<open>Reachable stores and exported trees\<close>

text \<open>
  The stores a \<open>TaskOrchestrator\<close> can be in: a new one, and whatever a call of a public
  method that returns leaves behind, \<open>restoreState\<close> with any snapshot included.
\<close>

inductive reachable :: "TaskOrchestrator \<Rightarrow> bool" where
  reachable_new: "reachable new_TaskOrchestrator"
| reachable_createPlan: "reachable S \<Longrightarrow> reachable (snd (createPlan goal S))"
| reachable_addTask: "reachable S \<Longrightarrow> addTask description parentId notes S = Inr (msg, S') \<Longrightarrow> reachable S'"
| reachable_updateTask: "reachable S \<Longrightarrow> updateTask i updates S = Inr (msg, S') \<Longrightarrow> reachable S'"
| reachable_restoreState: "reachable S \<Longrightarrow> restoreState state S = Inr (msg, S') \<Longrightarrow> reachable S'"

text \<open>
  The stores built by \<open>createPlan\<close>, \<open>addTask\<close> and \<open>updateTask\<close> alone;
  \<open>createPlan\<close> clears the map, so it may start from any store.
\<close>

inductive built :: "TaskOrchestrator \<Rightarrow> bool" where
  built_createPlan: "built (snd (createPlan goal S))"
| built_addTask: "built S \<Longrightarrow> addTask description parentId notes S = Inr (msg, S') \<Longrightarrow> built S'"
| built_updateTask: "built S \<Longrightarrow> updateTask i updates S = Inr (msg, S') \<Longrightarrow> built S'"

text \<open>
  What every such store satisfies: a task is stored under its own id, and a task stored
  under the empty id has no subtasks (nothing is ever attached to a falsy parent id).
\<close>

definition store_inv :: "(string \<times> Task) list \<Rightarrow> bool" where
  "store_inv m \<longleftrightarrow>
     (\<forall>k t. map_of m k = Some t \<longrightarrow> t_id t = k) \<and>
     (\<forall>t. map_of m [] = Some t \<longrightarrow> t_subtasks t = [])"

text \<open>The subtrees of a snapshot, in pre-order, and the height of a snapshot.\<close>

fun nodes :: "TaskNode \<Rightarrow> TaskNode list" where
  "nodes (TaskNode i d s nt r subs) = TaskNode i d s nt r subs # concat (map nodes subs)"

fun height :: "TaskNode \<Rightarrow> nat" where
  "height (TaskNode i d s nt r subs) = Suc (foldr max (map height subs) 0)"

text \<open>A stored task holds the fields of a snapshot node and the ids of its children.\<close>

definition represents :: "Task \<Rightarrow> TaskNode \<Rightarrow> bool" where
  "represents task a \<longleftrightarrow>
     t_id task = n_id a \<and> t_description task = n_description a \<and> t_status task = n_status a \<and>
     t_notes task = n_notes a \<and> t_result task = n_result a \<and>
     t_subtasks task = map n_id (n_subtasks a)"

text \<open>
  Nodes as an export produces them: two nodes with the same id are the same subtree, and
  a node with the empty id has no children.
\<close>

definition unfolding_of :: "TaskNode list \<Rightarrow> bool" where
  "unfolding_of ns \<longleftrightarrow>
     (\<forall>a \<in> set ns. \<forall>b \<in> set ns. n_id a = n_id b \<longrightarrow> a = b) \<and>
     (\<forall>a \<in> set ns. n_id a = [] \<longrightarrow> n_subtasks a = [])"

text \<open>
  The effect of replaying the nodes \<open>ns\<close> under the parent id \<open>p\<close>: the root id is
  kept, every node of \<open>ns\<close> is represented, \<open>ids\<close> are appended to the subtasks of
  \<open>p\<close>, and every other entry of the map is as before.
\<close>

definition push :: "string list \<Rightarrow> Task \<Rightarrow> Task" where
  "push ids t = t\<lparr>t_subtasks := t_subtasks t @ ids\<rparr>"

definition restored ::
  "TaskNode list \<Rightarrow> string \<Rightarrow> string list \<Rightarrow> TaskOrchestrator \<Rightarrow> TaskOrchestrator \<Rightarrow> bool" where
  "restored ns p ids S S' \<longleftrightarrow>
     rootTaskId S' = rootTaskId S \<and>
     (\<forall>b \<in> set ns. \<exists>task. map_of (tasks S') (n_id b) = Some task \<and> represents task b) \<and>
     (\<forall>k. k \<notin> n_id ` set ns \<longrightarrow> k \<noteq> p \<longrightarrow> map_of (tasks S') k = map_of (tasks S) k) \<and>
     map_of (tasks S') p = map_option (push ids) (map_of (tasks S) p)"

section \<open>Call sequences used in the statements\<close>

text \<open>An update that carries only a \<open>notes\<close> field.\<close>

definition notes_only :: "string \<Rightarrow> TaskUpdates" where
  "notes_only n = \<lparr>u_status = None, u_description = None, u_notes = Some n, u_result = None\<rparr>"

text \<open>
  A sequence of \<open>addTask\<close> calls, each with its description, parent id and notes; the
  sequence stops at the first call that throws, and returns the confirmation texts.
\<close>

fun addTasks ::
  "(string \<times> string option \<times> string option) list \<Rightarrow> TaskOrchestrator
   \<Rightarrow> error + (string list \<times> TaskOrchestrator)" where
  "addTasks [] S = Inr ([], S)"
| "addTasks ((description, parentId, notes) # calls) S =
     (case addTask description parentId notes S of
        Inl e \<Rightarrow> Inl e
      | Inr (msg, S1) \<Rightarrow>
          (case addTasks calls S1 of
             Inl e \<Rightarrow> Inl e
           | Inr (msgs, S2) \<Rightarrow> Inr (msg # msgs, S2)))"

section \<open>Concrete inputs used in the statements\<close>

text \<open>A scorer that gives 1 to a candidate text equal to the query and 0 to any other.\<close>

definition exact_match :: "string \<Rightarrow> string \<Rightarrow> real" where
  "exact_match query text = (if query = text then 1 else 0)"

text \<open>
  The manager after \<open>createPlan("goal")\<close>, \<open>createCheckpoint("alpha")\<close> at time 0 and
  \<open>addTask("step")\<close>.
\<close>

definition example_manager :: CheckpointManager where
  "example_manager =
     \<lparr>orchestrator =
        \<lparr>tasks = [(''1'', \<lparr>t_id = ''1'', t_description = ''goal'', t_status = ''pending'',
                          t_parentId = None, t_notes = None, t_result = None, t_subtasks = [''2'']\<rparr>),
                  (''2'', \<lparr>t_id = ''2'', t_description = ''step'', t_status = ''pending'',
                          t_parentId = Some ''1'', t_notes = None, t_result = None, t_subtasks = []\<rparr>)],
         rootTaskId = Some ''1''\<rparr>,
      checkpoints = [\<lparr>cp_id = ''cp_1'', cp_name = ''alpha'', cp_description = None,
                      cp_state = Some (TreeState (TaskNode ''1'' ''goal'' ''pending'' None None [])),
                      cp_timestamp = 0\<rparr>],
      nextId = 2\<rparr>"

text \<open>The manager after \<open>createCheckpoint("early")\<close> at time 0 and then \<open>createPlan("goal")\<close>.\<close>

definition early_manager :: CheckpointManager where
  "early_manager =
     \<lparr>orchestrator =
        \<lparr>tasks = [(''1'', \<lparr>t_id = ''1'', t_description = ''goal'', t_status = ''pending'',
                          t_parentId = None, t_notes = None, t_result = None, t_subtasks = []\<rparr>)],
         rootTaskId = Some ''1''\<rparr>,
      checkpoints = [\<lparr>cp_id = ''cp_1'', cp_name = ''early'', cp_description = None,
                      cp_state = Some ErrorState, cp_timestamp = 0\<rparr>],
      nextId = 2\<rparr>"

text \<open>
  The plan after \<open>createPlan("Build X")\<close>, \<open>addTask("Step A")\<close> and
  \<open>updateTask("2", {status: "completed", result: "done"})\<close>, and its exported tree.
\<close>

definition example_plan :: TaskOrchestrator where
  "example_plan =
     \<lparr>tasks = [(''1'', \<lparr>t_id = ''1'', t_description = ''Build X'', t_status = ''pending'',
                       t_parentId = None, t_notes = None, t_result = None, t_subtasks = [''2'']\<rparr>),
               (''2'', \<lparr>t_id = ''2'', t_description = ''Step A'', t_status = ''completed'',
                       t_parentId = Some ''1'', t_notes = None, t_result = Some ''done'',
                       t_subtasks = []\<rparr>)],
      rootTaskId = Some ''1''\<rparr>"

definition example_tree :: TaskNode where
  "example_tree =
     TaskNode ''1'' ''Build X'' ''pending'' None None
       [TaskNode ''2'' ''Step A'' ''completed'' None (Some ''done'') []]"

text \<open>A snapshot whose root and only child both have the id \<open>1\<close>.\<close>

definition repeated_id_snapshot :: TaskNode where
  "repeated_id_snapshot =
     TaskNode ''1'' ''goal'' ''pending'' None None [TaskNode ''1'' ''step'' ''pending'' None None []]"

text \<open>
  A \<open>restoreState\<close> whose recursion throws a TypeError part-way, after
  \<open>tasks.clear()\<close> and \<open>rootTaskId = null\<close> have run, and one that accepts every state.
\<close>

definition restore_that_throws ::
  "PlanState option \<Rightarrow> TaskOrchestrator \<Rightarrow> (error \<times> TaskOrchestrator) + (string \<times> TaskOrchestrator)" where
  "restore_that_throws state S = Inl (TypeError, S\<lparr>tasks := [], rootTaskId := None\<rparr>)"

definition restore_that_accepts ::
  "PlanState option \<Rightarrow> TaskOrchestrator \<Rightarrow> (error \<times> TaskOrchestrator) + (string \<times> TaskOrchestrator)" where
  "restore_that_accepts state S = Inr (''ok'', new_TaskOrchestrator)"

section \<open>Invariants of the task map\<close>

text \<open>
  After a plan of \<open>n\<close> tasks was built by \<open>createPlan\<close> and \<open>addTask\<close>: the keys are
  the decimal strings of 1 to \<open>n\<close> in insertion order, every task is stored under its own
  id, and every id in a subtasks list or in a \<open>parentId\<close> is a key.
\<close>

definition ids_inv :: "nat \<Rightarrow> TaskOrchestrator \<Rightarrow> bool" where
  "ids_inv n S \<longleftrightarrow>
     map fst (tasks S) = map toString [1..<Suc n] \<and>
     (\<forall>k t. map_of (tasks S) k = Some t \<longrightarrow>
        t_id t = k \<and> set (t_subtasks t) \<subseteq> fst ` set (tasks S) \<and>
        (\<forall>p. t_parentId t = Some p \<longrightarrow> p \<in> fst ` set (tasks S)))"

text \<open>
  In a plan of \<open>n\<close> tasks built by \<open>createPlan\<close>, \<open>addTask\<close> and \<open>updateTask\<close> the
  root is task 1 and every subtask was added after its parent, so it has a greater id.
\<close>

definition plan_inv :: "nat \<Rightarrow> TaskOrchestrator \<Rightarrow> bool" where
  "plan_inv n S \<longleftrightarrow>
     ids_inv n S \<and> 0 < n \<and> rootTaskId S = Some (toString 1) \<and>
     (\<forall>k t. map_of (tasks S) (toString k) = Some t \<longrightarrow>
        (\<forall>c \<in> set (t_subtasks t). \<exists>j. c = toString j \<and> k < j))"

section \<open>The store and the checkpoints as objects on a heap\<close>

text \<open>
  Whether a checkpoint shares structure with the live plan is a question about object
  identity, so here the objects have addresses. A heap is a list of objects, a reference
  is an index into it, and \<open>new\<close> appends. Three kinds of object exist: a Task held by
  the map (with its \<open>subtasks\<close> array of ids, which no other object refers to), a plain
  object of a snapshot (with its \<open>subtasks\<close> array of references to child objects), and
  the object \<open>{error: "No plan active"}\<close>. The map holds references to Task objects.
\<close>

datatype obj =
    TaskObj Task
  | NodeObj string string TaskStatus "string option" "string option" "nat list"
  | ErrorObj

record Checkpoint_h =
  cph_id :: string
  cph_name :: string
  cph_description :: "string option"
  cph_state :: nat
  cph_timestamp :: nat

record World =
  heap :: "obj list"
  tasks_h :: "(string \<times> nat) list"
  rootTaskId_h :: "string option"
  checkpoints_h :: "Checkpoint_h list"
  nextId_h :: nat

definition new_World :: World where
  "new_World = \<lparr>heap = [], tasks_h = [], rootTaskId_h = None, checkpoints_h = [], nextId_h = 1\<rparr>"

definition deref :: "obj list \<Rightarrow> nat \<Rightarrow> obj option" where
  "deref h r = (if r < length h then Some (h ! r) else None)"

definition new_obj :: "obj \<Rightarrow> World \<Rightarrow> nat \<times> World" where
  "new_obj ob w = (length (heap w), w\<lparr>heap := heap w @ [ob]\<rparr>)"

text \<open>
  A call returns \<open>Some (outcome, world)\<close>: the outcome is \<open>Inr\<close> the value returned or
  \<open>Inl\<close> the error thrown, and the world is the one the call leaves, also when it
  throws. \<open>None\<close> is a recursion that has not returned within the fuel. A reference that
  does not lead to an object of the kind the code reads there is a \<open>TypeError\<close>.
\<close>

definition createPlan_h :: "string \<Rightarrow> World \<Rightarrow> string \<times> World" where
  "createPlan_h goal w =
     (let rootTask = \<lparr>t_id = ''1'', t_description = goal, t_status = ''pending'',
                       t_parentId = None, t_notes = None, t_result = None, t_subtasks = []\<rparr>;
          (r, w1) = new_obj (TaskObj rootTask) (w\<lparr>tasks_h := []\<rparr>)
      in (''Plan created with root task ID: 1. Goal: '' @ goal,
          w1\<lparr>tasks_h := AList.update (t_id rootTask) r (tasks_h w1),
              rootTaskId_h := Some (t_id rootTask)\<rparr>))"

definition addTask_h ::
  "string \<Rightarrow> string option \<Rightarrow> string option \<Rightarrow> World \<Rightarrow> (error + string) \<times> World" where
  "addTask_h description parentId notes w =
     (if \<not> truthy (rootTaskId_h w) then (Inl NoActivePlan, w)
      else
        let newId = toString (length (tasks_h w) + 1);
            parentKey = (if truthy parentId then the parentId else the (rootTaskId_h w))
        in case map_of (tasks_h w) parentKey of
             None \<Rightarrow> (Inl (ParentNotFound parentId), w)
           | Some pr \<Rightarrow>
               (case deref (heap w) pr of
                  Some (TaskObj parent) \<Rightarrow>
                    let newTask = \<lparr>t_id = newId, t_description = description, t_status = ''pending'',
                                     t_parentId = Some (t_id parent), t_notes = notes,
                                     t_result = None, t_subtasks = []\<rparr>;
                        (nr, w1) = new_obj (TaskObj newTask) w;
                        w2 = w1\<lparr>tasks_h := AList.update newId nr (tasks_h w1)\<rparr>;
                        w3 = w2\<lparr>heap := (heap w2)
                                  [pr := TaskObj (parent\<lparr>t_subtasks := t_subtasks parent @ [newId]\<rparr>)]\<rparr>
                    in (Inr (''Added task '' @ newId @ '': '' @ [CHR 0x22] @ description @ [CHR 0x22]
                               @ '' to parent '' @ t_id parent), w3)
                | _ \<Rightarrow> (Inl TypeError, w)))"

definition updateTask_h :: "string \<Rightarrow> TaskUpdates \<Rightarrow> World \<Rightarrow> (error + string) \<times> World" where
  "updateTask_h i updates w =
     (case map_of (tasks_h w) i of
        None \<Rightarrow> (Inl (TaskNotFound i), w)
      | Some tr \<Rightarrow>
          (case deref (heap w) tr of
             Some (TaskObj task) \<Rightarrow>
               let task1 = (if truthy (u_status updates)
                            then task\<lparr>t_status := the (u_status updates)\<rparr> else task);
                   task2 = (if truthy (u_description updates)
                            then task1\<lparr>t_description := the (u_description updates)\<rparr> else task1);
                   task3 = (if truthy (u_notes updates)
                            then task2\<lparr>t_notes :=
                                   (if truthy (u_notes updates)
                                    then (if truthy (t_notes task2)
                                          then Some (the (t_notes task2) @ [CHR 0x0A]
                                                     @ the (u_notes updates))
                                          else u_notes updates)
                                    else t_notes task2)\<rparr>
                            else task2);
                   task4 = (if truthy (u_result updates)
                            then task3\<lparr>t_result := u_result updates\<rparr> else task3)
               in (Inr (''Updated task '' @ i @ ''. New status: '' @ t_status task4),
                   w\<lparr>heap := (heap w)[tr := TaskObj task4]\<rparr>)
           | _ \<Rightarrow> (Inl TypeError, w)))"

text \<open>\<open>map\<close> and \<open>forEach\<close> with the world threaded through the calls, from left to right.\<close>

fun collect_h ::
  "('a \<Rightarrow> World \<Rightarrow> ((error + 'b) \<times> World) option) \<Rightarrow> 'a list \<Rightarrow> World
   \<Rightarrow> ((error + 'b list) \<times> World) option" where
  "collect_h f [] w = Some (Inr [], w)"
| "collect_h f (x # xs) w =
     (case f x w of
        None \<Rightarrow> None
      | Some (Inl e, w1) \<Rightarrow> Some (Inl e, w1)
      | Some (Inr y, w1) \<Rightarrow>
          (case collect_h f xs w1 of
             None \<Rightarrow> None
           | Some (Inl e, w2) \<Rightarrow> Some (Inl e, w2)
           | Some (Inr ys, w2) \<Rightarrow> Some (Inr (y # ys), w2)))"

text \<open>
  \<open>buildTree\<close> builds the children first (the \<open>subtasks\<close> property is the last of the
  object literal) and then allocates the object of the node.
\<close>

primrec buildTree_h :: "nat \<Rightarrow> string \<Rightarrow> World \<Rightarrow> ((error + nat) \<times> World) option" where
  "buildTree_h 0 = (\<lambda>taskId w. None)"
| "buildTree_h (Suc n) = (\<lambda>taskId w.
     case map_of (tasks_h w) taskId of
       None \<Rightarrow> Some (Inl TypeError, w)
     | Some tr \<Rightarrow>
         (case deref (heap w) tr of
            Some (TaskObj task) \<Rightarrow>
              (case collect_h (buildTree_h n) (t_subtasks task) w of
                 None \<Rightarrow> None
               | Some (Inl e, w1) \<Rightarrow> Some (Inl e, w1)
               | Some (Inr kids, w1) \<Rightarrow>
                   (let (r, w2) = new_obj (NodeObj (t_id task) (t_description task) (t_status task)
                                             (t_notes task) (t_result task) kids) w1
                    in Some (Inr r, w2)))
          | _ \<Rightarrow> Some (Inl TypeError, w)))"

definition getPlanState_h :: "nat \<Rightarrow> World \<Rightarrow> ((error + nat) \<times> World) option" where
  "getPlanState_h fuel w =
     (if \<not> truthy (rootTaskId_h w) then (let (r, w1) = new_obj ErrorObj w in Some (Inr r, w1))
      else buildTree_h fuel (the (rootTaskId_h w)) w)"

text \<open>
  \<open>JSON.stringify\<close> reads the objects below a reference into a value (the text), and
  \<open>JSON.parse\<close> allocates new objects for a value, children first. Reading does not
  return for a reference that is not to a snapshot object, or within the fuel.
\<close>

primrec read_node :: "nat \<Rightarrow> obj list \<Rightarrow> nat \<Rightarrow> TaskNode option" where
  "read_node 0 = (\<lambda>h r. None)"
| "read_node (Suc n) = (\<lambda>h r.
     case deref h r of
       Some (NodeObj i d s nt res subs) \<Rightarrow>
         (case those (map (read_node n h) subs) of
            None \<Rightarrow> None
          | Some kids \<Rightarrow> Some (TaskNode i d s nt res kids))
     | _ \<Rightarrow> None)"

definition JSON_stringify :: "nat \<Rightarrow> obj list \<Rightarrow> nat \<Rightarrow> PlanState option" where
  "JSON_stringify fuel h r =
     (case deref h r of
        Some ErrorObj \<Rightarrow> Some ErrorState
      | Some (NodeObj i d s nt res subs) \<Rightarrow> map_option TreeState (read_node fuel h r)
      | _ \<Rightarrow> None)"

fun parse_node :: "TaskNode \<Rightarrow> World \<Rightarrow> nat \<times> World"
  and parse_nodes :: "TaskNode list \<Rightarrow> World \<Rightarrow> nat list \<times> World" where
  "parse_node (TaskNode i d s nt res subs) w =
     (let (kids, w1) = parse_nodes subs w in new_obj (NodeObj i d s nt res kids) w1)"
| "parse_nodes [] w = ([], w)"
| "parse_nodes (c # cs) w =
     (let (k, w1) = parse_node c w; (ks, w2) = parse_nodes cs w1 in (k # ks, w2))"

fun JSON_parse :: "PlanState \<Rightarrow> World \<Rightarrow> nat \<times> World" where
  "JSON_parse ErrorState w = new_obj ErrorObj w"
| "JSON_parse (TreeState t) w = parse_node t w"

definition createCheckpoint_h ::
  "nat \<Rightarrow> string \<Rightarrow> string option \<Rightarrow> nat \<Rightarrow> World \<Rightarrow> ((error + string) \<times> World) option" where
  "createCheckpoint_h fuel name description now w =
     (let i = ''cp_'' @ toString (nextId_h w);
          w1 = w\<lparr>nextId_h := nextId_h w + 1\<rparr>
      in case getPlanState_h fuel w1 of
           None \<Rightarrow> None
         | Some (Inl e, w2) \<Rightarrow> Some (Inl e, w2)
         | Some (Inr state, w2) \<Rightarrow>
             (case JSON_stringify fuel (heap w2) state of
                None \<Rightarrow> None
              | Some text \<Rightarrow>
                  (let (copy, w3) = JSON_parse text w2;
                       checkpoint = \<lparr>cph_id = i, cph_name = name, cph_description = description,
                                      cph_state = copy, cph_timestamp = now\<rparr>
                   in Some (Inr i, w3\<lparr>checkpoints_h := checkpoints_h w3 @ [checkpoint]\<rparr>))))"

text \<open>
  \<open>restoreTask\<close> reads the snapshot object, allocates a new Task object with a new empty
  \<open>subtasks\<close> array, sets the root or pushes the id onto the parent fetched from the
  map, and recurses into the child objects.
\<close>

fun forEach_h ::
  "('a \<Rightarrow> World \<Rightarrow> ((error + unit) \<times> World) option) \<Rightarrow> 'a list \<Rightarrow> World
   \<Rightarrow> ((error + unit) \<times> World) option" where
  "forEach_h f [] w = Some (Inr (), w)"
| "forEach_h f (x # xs) w =
     (case f x w of
        None \<Rightarrow> None
      | Some (Inl e, w1) \<Rightarrow> Some (Inl e, w1)
      | Some (Inr u, w1) \<Rightarrow> forEach_h f xs w1)"

definition attach_h :: "string \<Rightarrow> string option \<Rightarrow> World \<Rightarrow> error + World" where
  "attach_h i parentId w =
     (if \<not> truthy parentId then Inr (w\<lparr>rootTaskId_h := Some i\<rparr>)
      else case map_of (tasks_h w) (the parentId) of
             None \<Rightarrow> Inr w
           | Some pr \<Rightarrow>
               (case deref (heap w) pr of
                  Some (TaskObj parent) \<Rightarrow>
                    Inr (w\<lparr>heap := (heap w)
                              [pr := TaskObj (parent\<lparr>t_subtasks := t_subtasks parent @ [i]\<rparr>)]\<rparr>)
                | _ \<Rightarrow> Inl TypeError))"

primrec restoreTask_h ::
  "nat \<Rightarrow> nat \<times> string option \<Rightarrow> World \<Rightarrow> ((error + unit) \<times> World) option" where
  "restoreTask_h 0 = (\<lambda>(taskData, parentId) w. None)"
| "restoreTask_h (Suc n) = (\<lambda>(taskData, parentId) w.
     case deref (heap w) taskData of
       Some (NodeObj i d s nt res subs) \<Rightarrow>
         (let task = \<lparr>t_id = i, t_description = d, t_status = s, t_parentId = parentId,
                       t_notes = nt, t_result = res, t_subtasks = []\<rparr>;
              (tr, w1) = new_obj (TaskObj task) w;
              w2 = w1\<lparr>tasks_h := AList.update i tr (tasks_h w1)\<rparr>
          in case attach_h i parentId w2 of
               Inl e \<Rightarrow> Some (Inl e, w2)
             | Inr w3 \<Rightarrow> forEach_h (restoreTask_h n) (map (\<lambda>subtaskData. (subtaskData, Some i)) subs) w3)
     | _ \<Rightarrow> Some (Inl TypeError, w))"

definition restoreState_h :: "nat \<Rightarrow> nat option \<Rightarrow> World \<Rightarrow> ((error + string) \<times> World) option" where
  "restoreState_h fuel state w =
     (case state of
        None \<Rightarrow> Some (Inl InvalidState, w)
      | Some r \<Rightarrow>
          (case deref (heap w) r of
             Some ErrorObj \<Rightarrow> Some (Inl InvalidState, w)
           | Some (NodeObj i d s nt res subs) \<Rightarrow>
               (case restoreTask_h fuel (r, None) (w\<lparr>tasks_h := [], rootTaskId_h := None\<rparr>) of
                  None \<Rightarrow> None
                | Some (Inl e, w') \<Rightarrow> Some (Inl e, w')
                | Some (Inr u, w') \<Rightarrow>
                    Some (Inr (''State restored successfully. Plan has ''
                               @ toString (length (tasks_h w')) @ '' task(s).''), w'))
           | _ \<Rightarrow> Some (Inl TypeError, w)))"

text \<open>
  A mutation of the live plan, and the world a sequence of mutations leaves: each call
  may return or throw, and the next call runs on the world it left.
\<close>

datatype mutation =
    CreatePlan string
  | AddTask string "string option" "string option"
  | UpdateTask string TaskUpdates
  | RestoreState "nat option"

fun mutate :: "nat \<Rightarrow> mutation \<Rightarrow> World \<Rightarrow> World option" where
  "mutate fuel (CreatePlan goal) w = Some (snd (createPlan_h goal w))"
| "mutate fuel (AddTask description parentId notes) w = Some (snd (addTask_h description parentId notes w))"
| "mutate fuel (UpdateTask i updates) w = Some (snd (updateTask_h i updates w))"
| "mutate fuel (RestoreState state) w = map_option snd (restoreState_h fuel state w)"

fun mutate_all :: "nat \<Rightarrow> mutation list \<Rightarrow> World \<Rightarrow> World option" where
  "mutate_all fuel [] w = Some w"
| "mutate_all fuel (m # ms) w =
     (case mutate fuel m w of None \<Rightarrow> None | Some w1 \<Rightarrow> mutate_all fuel ms w1)"

text \<open>
  A later heap keeps a heap when it has every object of it that is not a Task object,
  unchanged and at the same reference.
\<close>

definition keeps :: "obj list \<Rightarrow> obj list \<Rightarrow> bool" where
  "keeps h h' \<longleftrightarrow>
     length h \<le> length h' \<and>
     (\<forall>r < length h. (\<forall>t. h ! r \<noteq> TaskObj t) \<longrightarrow> h' ! r = h ! r)"

text \<open>One world frames another when its heap keeps the other's and the checkpoints are the same.\<close>

definition frames :: "World \<Rightarrow> World \<Rightarrow> bool" where
  "frames w w' \<longleftrightarrow> keeps (heap w) (heap w') \<and> checkpoints_h w' = checkpoints_h w"

text \<open>The references read below a reference, down to a depth.\<close>

primrec refs_of :: "nat \<Rightarrow> obj list \<Rightarrow> nat \<Rightarrow> nat list" where
  "refs_of 0 = (\<lambda>h r. [r])"
| "refs_of (Suc n) = (\<lambda>h r.
     r # (case deref h r of
            Some (NodeObj i d s nt res subs) \<Rightarrow> concat (map (refs_of n h) subs)
          | _ \<Rightarrow> []))"

text \<open>From the reference \<open>L\<close> on, snapshot objects refer only to objects from \<open>L\<close> on.\<close>

definition above :: "nat \<Rightarrow> obj list \<Rightarrow> bool" where
  "above L h \<longleftrightarrow>
     (\<forall>r. L \<le> r \<longrightarrow> r < length h \<longrightarrow>
        (\<forall>i d s nt res subs. h ! r = NodeObj i d s nt res subs \<longrightarrow> (\<forall>k \<in> set subs. L \<le> k)))"

text \<open>Every reference of the map is to a Task object.\<close>

definition typed :: "World \<Rightarrow> bool" where
  "typed w \<longleftrightarrow> (\<forall>k r. map_of (tasks_h w) k = Some r \<longrightarrow> (\<exists>t. deref (heap w) r = Some (TaskObj t)))"

text \<open>
  A world grows into another when the heap is only extended and the map and the root id
  are the same: the live plan is untouched.
\<close>

definition grows :: "World \<Rightarrow> World \<Rightarrow> bool" where
  "grows w w' \<longleftrightarrow>
     (\<exists>ext. heap w' = heap w @ ext) \<and> tasks_h w' = tasks_h w \<and> rootTaskId_h w' = rootTaskId_h w"

text \<open>
  The world after \<open>createPlan("Build X")\<close> and \<open>addTask("Step A")\<close>, and mutations run
  after a checkpoint: the last but two restores from the object the checkpoint holds.
\<close>

definition example_world :: World where
  "example_world = snd (addTask_h ''Step A'' None None (snd (createPlan_h ''Build X'' new_World)))"

definition example_mutations :: "mutation list" where
  "example_mutations =
     [AddTask ''B'' None None,
      UpdateTask ''2'' \<lparr>u_status = Some ''completed'', u_description = None, u_notes = Some ''n'',
                        u_result = None\<rparr>,
      RestoreState (Some 5),
      AddTask ''C'' (Some ''2'') None,
      CreatePlan ''other'']"


text \<open>
  A world represents a store of the value model when the root ids agree, the maps have
  the same keys in the same order, each key leads to a Task object holding the task the
  store has under that key, and no two keys lead to the same object.
\<close>

definition abstracts :: "World \<Rightarrow> TaskOrchestrator \<Rightarrow> bool" where
  "abstracts w S \<longleftrightarrow>
     rootTaskId S = rootTaskId_h w \<and>
     map fst (tasks S) = map fst (tasks_h w) \<and>
     (\<forall>k. map_of (tasks_h w) k = None \<longrightarrow> map_of (tasks S) k = None) \<and>
     (\<forall>k r. map_of (tasks_h w) k = Some r \<longrightarrow>
        (\<exists>t. deref (heap w) r = Some (TaskObj t) \<and> map_of (tasks S) k = Some t)) \<and>
     (\<forall>k k' r. map_of (tasks_h w) k = Some r \<longrightarrow> map_of (tasks_h w) k' = Some r \<longrightarrow> k = k')"

text \<open>
  \<open>restoreCheckpoint\<close> on the heap: the lookup, the test of the state object, and
  \<open>restoreState\<close> inside the \<open>try\<close> block, whose throw the \<open>catch\<close> block turns into a
  result on the world the throw left.
\<close>

definition getText_h :: "Checkpoint_h \<Rightarrow> string" where
  "getText_h cp = (if truthy (cph_description cp) then cph_name cp @ '' '' @ the (cph_description cp)
                   else cph_name cp)"

definition resolveCheckpoint_h ::
  "(string \<Rightarrow> string \<Rightarrow> real) \<Rightarrow> string option \<Rightarrow> string option \<Rightarrow> Checkpoint_h list
   \<Rightarrow> Checkpoint_h option" where
  "resolveCheckpoint_h semanticSimilarity checkpointId description cps =
     (if truthy checkpointId then find (\<lambda>cp. cph_id cp = the checkpointId) cps
      else if truthy description then
        (case findBestMatches semanticSimilarity (the description) cps getText_h 1 of
           [] \<Rightarrow> None
         | m # _ \<Rightarrow> if snd m > 0.3 then Some (fst m) else None)
      else None)"

definition restoreCheckpoint_h ::
  "nat \<Rightarrow> (string \<Rightarrow> string \<Rightarrow> real) \<Rightarrow> string option \<Rightarrow> string option \<Rightarrow> World
   \<Rightarrow> ((error + RestoreResult) \<times> World) option" where
  "restoreCheckpoint_h fuel semanticSimilarity checkpointId description w =
     (case resolveCheckpoint_h semanticSimilarity checkpointId description (checkpoints_h w) of
        None \<Rightarrow>
          Some (Inr \<lparr>r_success = False,
                     r_message = (if truthy checkpointId
                                  then ''Checkpoint '' @ the checkpointId @ '' not found.''
                                  else ''No checkpoint found matching: '' @ str description)\<rparr>, w)
      | Some checkpoint \<Rightarrow>
          (case deref (heap w) (cph_state checkpoint) of
             Some ErrorObj \<Rightarrow>
               Some (Inr \<lparr>r_success = False,
                          r_message = ''Checkpoint '' @ [CHR 0x22] @ cph_name checkpoint @ [CHR 0x22]
                                      @ '' has invalid state.''\<rparr>, w)
           | _ \<Rightarrow>
               (case restoreState_h fuel (Some (cph_state checkpoint)) w of
                  None \<Rightarrow> None
                | Some (Inl error, w') \<Rightarrow>
                    Some (Inr \<lparr>r_success = False,
                               r_message = ''Error restoring checkpoint: '' @ message error\<rparr>, w')
                | Some (Inr txt, w') \<Rightarrow>
                    Some (Inr \<lparr>r_success = True,
                               r_message = ''Checkpoint '' @ [CHR 0x22] @ cph_name checkpoint
                                           @ [CHR 0x22] @ '' restored successfully.''\<rparr>, w'))))"

text \<open>
  The world after \<open>createPlan("Build X")\<close>, \<open>createCheckpoint("alpha")\<close> and
  \<open>addTask("Step A")\<close>, in which the \<open>subtasks\<close> array of the checkpoint's object has
  since been given an entry that is no object (\<open>getCheckpoint\<close> hands out the stored
  checkpoint itself).
\<close>

definition damaged_world :: World where
  "damaged_world =
     \<lparr>heap = [TaskObj \<lparr>t_id = ''1'', t_description = ''Build X'', t_status = ''pending'',
                        t_parentId = None, t_notes = None, t_result = None, t_subtasks = [''2'']\<rparr>,
              NodeObj ''1'' ''Build X'' ''pending'' None None [],
              NodeObj ''1'' ''Build X'' ''pending'' None None [9],
              TaskObj \<lparr>t_id = ''2'', t_description = ''Step A'', t_status = ''pending'',
                        t_parentId = Some ''1'', t_notes = None, t_result = None, t_subtasks = []\<rparr>],
      tasks_h = [(''1'', 0), (''2'', 3)],
      rootTaskId_h = Some ''1'',
      checkpoints_h = [\<lparr>cph_id = ''cp_1'', cph_name = ''alpha'', cph_description = None,
                        cph_state = 2, cph_timestamp = 0\<rparr>],
      nextId_h = 2\<rparr>"

section \<open>Decimal ids\<close>

lemma digit_inj: "a < 10 \<Longrightarrow> b < 10 \<Longrightarrow> digit a = digit b \<Longrightarrow> a = b"
  unfolding digit_def by (subst (asm) nth_eq_iff_index_eq) auto

lemma toString_small: "n < 10 \<Longrightarrow> toString n = [digit n]"
  by (subst toString.simps) simp

lemma toString_large: "\<not> n < 10 \<Longrightarrow> toString n = toString (n div 10) @ [digit (n mod 10)]"
  by (subst toString.simps) simp

lemma toString_ne [simp]: "toString n \<noteq> []" "[] \<noteq> toString n"
  by (cases "n < 10"; simp add: toString_small toString_large)+

lemma toString_inj: "toString a = toString b \<Longrightarrow> a = b"
proof (induction a arbitrary: b rule: toString.induct)
  case (1 n)
  show ?case
  proof (cases "n < 10")
    case True
    with 1(2) have "b < 10"
      by (cases "b < 10") (auto simp: toString_small toString_large)
    with True 1(2) show ?thesis
      by (auto simp: toString_small dest: digit_inj)
  next
    case False
    with 1(2) have b: "\<not> b < 10"
      by (cases "b < 10") (auto simp: toString_small toString_large)
    with False 1(2) have "toString (n div 10) = toString (b div 10)" "digit (n mod 10) = digit (b mod 10)"
      by (auto simp: toString_large)
    then have "n div 10 = b div 10" "n mod 10 = b mod 10"
      using 1(1)[OF False] digit_inj[of "n mod 10" "b mod 10"] by simp_all
    then show ?thesis by (metis div_mult_mod_eq)
  qed
qed

section \<open>Updating a task\<close>

lemma map_of_Some_key_mem: "map_of al k = Some v \<Longrightarrow> k \<in> fst ` set al"
  by (metis domI dom_map_of_conv_image_fst)

text \<open>
  C5. For a task present under id \<open>i\<close>, \<open>updateTask\<close> returns, and in the stored task
  every field whose update value is absent or falsy (\<open>undefined\<close> or the empty string)
  keeps its value: status, description, notes and result each on their own condition.
  The id, the parent id and the subtasks of the task, every other task, the order of
  the map and the root id are never modified.
\<close>

theorem updateTask_keeps_falsy_fields:
  assumes "map_of (tasks S) i = Some task"
  shows "\<exists>msg S' task'. updateTask i u S = Inr (msg, S') \<and> map_of (tasks S') i = Some task' \<and>
     (\<not> truthy (u_status u) \<longrightarrow> t_status task' = t_status task) \<and>
     (\<not> truthy (u_description u) \<longrightarrow> t_description task' = t_description task) \<and>
     (\<not> truthy (u_notes u) \<longrightarrow> t_notes task' = t_notes task) \<and>
     (\<not> truthy (u_result u) \<longrightarrow> t_result task' = t_result task) \<and>
     t_id task' = t_id task \<and> t_parentId task' = t_parentId task \<and> t_subtasks task' = t_subtasks task \<and>
     (\<forall>j. j \<noteq> i \<longrightarrow> map_of (tasks S') j = map_of (tasks S) j) \<and>
     map fst (tasks S') = map fst (tasks S) \<and> rootTaskId S' = rootTaskId S"
  using assms map_of_Some_key_mem[OF assms]
  by (simp add: updateTask_def Let_def update_conv' update_keys)

text \<open>
  The root of a new plan, updated with the empty string for status, description and
  notes and with no result, is stored back unchanged.
\<close>

theorem updateTask_keeps_falsy_fields_witness:
  "map_of (tasks (snd (createPlan ''goal'' new_TaskOrchestrator))) ''1'' =
     Some \<lparr>t_id = ''1'', t_description = ''goal'', t_status = ''pending'', t_parentId = None,
           t_notes = None, t_result = None, t_subtasks = []\<rparr> \<and>
   (\<exists>msg S'. updateTask ''1''
                \<lparr>u_status = Some '''', u_description = Some '''', u_notes = Some '''', u_result = None\<rparr>
                (snd (createPlan ''goal'' new_TaskOrchestrator)) = Inr (msg, S') \<and>
      map_of (tasks S') ''1'' =
        Some \<lparr>t_id = ''1'', t_description = ''goal'', t_status = ''pending'', t_parentId = None,
              t_notes = None, t_result = None, t_subtasks = []\<rparr>)"
proof -
  let ?S = "snd (createPlan ''goal'' new_TaskOrchestrator)"
  let ?t = "\<lparr>t_id = ''1'', t_description = ''goal'', t_status = ''pending'', t_parentId = None,
           t_notes = None, t_result = None, t_subtasks = []\<rparr>"
  let ?u = "\<lparr>u_status = Some '''', u_description = Some '''', u_notes = Some '''', u_result = None\<rparr>"
  have h: "map_of (tasks ?S) ''1'' = Some ?t"
    by (simp add: createPlan_def)
  from updateTask_keeps_falsy_fields[OF h, of ?u]
  obtain msg S' task' where "updateTask ''1'' ?u ?S = Inr (msg, S')"
    "map_of (tasks S') ''1'' = Some task'" "t_status task' = t_status ?t"
    "t_description task' = t_description ?t" "t_notes task' = t_notes ?t"
    "t_result task' = t_result ?t" "t_id task' = t_id ?t" "t_parentId task' = t_parentId ?t"
    "t_subtasks task' = t_subtasks ?t"
    by auto
  then show ?thesis using h by auto
qed

lemma updateTask_notes:
  assumes "map_of (tasks S) i = Some task" and "truthy (u_notes u)"
  shows "\<exists>msg S' task'. updateTask i u S = Inr (msg, S') \<and> map_of (tasks S') i = Some task' \<and>
           t_notes task' = Some (if truthy (t_notes task)
                                 then the (t_notes task) @ [CHR 0x0A] @ the (u_notes u)
                                 else the (u_notes u))"
  using assms by (cases "u_notes u") (simp_all add: updateTask_def Let_def update_conv')

text \<open>
  C6. For a task present under id \<open>i\<close> and any update whose notes are a non-empty
  string: when the task has no notes (\<open>undefined\<close> or the empty string) the new text
  becomes the notes, otherwise the notes become the old notes, a newline and the new
  text. On a task without notes, an update with notes \<open>a\<close> followed by one with notes
  \<open>b\<close> leaves the notes \<open>a\<close>, newline, \<open>b\<close>.
\<close>

theorem updateTask_notes_append:
  assumes "map_of (tasks S) i = Some task"
  shows "(\<forall>u. truthy (u_notes u) \<longrightarrow>
            (\<exists>msg S' task'. updateTask i u S = Inr (msg, S') \<and> map_of (tasks S') i = Some task' \<and>
               t_notes task' = Some (if truthy (t_notes task)
                                     then the (t_notes task) @ [CHR 0x0A] @ the (u_notes u)
                                     else the (u_notes u)))) \<and>
         (\<not> truthy (t_notes task) \<longrightarrow>
            (\<exists>msg1 S1 msg2 S2 task2.
               updateTask i (notes_only ''a'') S = Inr (msg1, S1) \<and>
               updateTask i (notes_only ''b'') S1 = Inr (msg2, S2) \<and>
               map_of (tasks S2) i = Some task2 \<and>
               t_notes task2 = Some (''a'' @ [CHR 0x0A] @ ''b'')))"
proof (intro conjI allI impI)
  fix u :: TaskUpdates assume "truthy (u_notes u)"
  with assms show "\<exists>msg S' task'. updateTask i u S = Inr (msg, S') \<and> map_of (tasks S') i = Some task' \<and>
               t_notes task' = Some (if truthy (t_notes task)
                                     then the (t_notes task) @ [CHR 0x0A] @ the (u_notes u)
                                     else the (u_notes u))"
    by (rule updateTask_notes)
next
  assume n: "\<not> truthy (t_notes task)"
  from updateTask_notes[OF assms, of "notes_only ''a''"] n
  obtain msg1 S1 task1 where 1: "updateTask i (notes_only ''a'') S = Inr (msg1, S1)"
    "map_of (tasks S1) i = Some task1" "t_notes task1 = Some ''a''"
    by (auto simp: notes_only_def)
  from updateTask_notes[OF 1(2), of "notes_only ''b''"] 1(3)
  obtain msg2 S2 task2 where 2: "updateTask i (notes_only ''b'') S1 = Inr (msg2, S2)"
    "map_of (tasks S2) i = Some task2" "t_notes task2 = Some (''a'' @ [CHR 0x0A] @ ''b'')"
    by (auto simp: notes_only_def)
  with 1 show "\<exists>msg1 S1 msg2 S2 task2.
               updateTask i (notes_only ''a'') S = Inr (msg1, S1) \<and>
               updateTask i (notes_only ''b'') S1 = Inr (msg2, S2) \<and>
               map_of (tasks S2) i = Some task2 \<and>
               t_notes task2 = Some (''a'' @ [CHR 0x0A] @ ''b'')"
    by blast
qed

text \<open>The root of a new plan has no notes; two updates leave \<open>a\<close>, newline, \<open>b\<close>.\<close>

theorem updateTask_notes_append_witness:
  "map_of (tasks (snd (createPlan ''goal'' new_TaskOrchestrator))) ''1'' =
     Some \<lparr>t_id = ''1'', t_description = ''goal'', t_status = ''pending'', t_parentId = None,
           t_notes = None, t_result = None, t_subtasks = []\<rparr> \<and>
   (\<exists>msg1 S1 msg2 S2 task2.
      updateTask ''1'' (notes_only ''a'') (snd (createPlan ''goal'' new_TaskOrchestrator)) = Inr (msg1, S1) \<and>
      updateTask ''1'' (notes_only ''b'') S1 = Inr (msg2, S2) \<and>
      map_of (tasks S2) ''1'' = Some task2 \<and>
      t_notes task2 = Some (''a'' @ [CHR 0x0A] @ ''b''))"
proof -
  have h: "map_of (tasks (snd (createPlan ''goal'' new_TaskOrchestrator))) ''1'' =
     Some \<lparr>t_id = ''1'', t_description = ''goal'', t_status = ''pending'', t_parentId = None,
           t_notes = None, t_result = None, t_subtasks = []\<rparr>"
    by (simp add: createPlan_def)
  show ?thesis
    using h updateTask_notes_append[OF h] by simp
qed

section \<open>Adding a task after a restore\<close>

text \<open>
  C9. \<open>restoreState\<close> accepts the snapshot whose root has id \<open>1\<close> and whose only child
  has id \<open>3\<close>, and leaves a map of two tasks. The next \<open>addTask\<close> allocates the id
  \<open>3\<close> again: the map still has two entries, the entry under \<open>3\<close> is the new task, and
  the subtasks of the root are \<open>3, 3\<close>.
\<close>

theorem addTask_after_restoreState_reuses_id:
  "restoreState (Some (TreeState (TaskNode ''1'' ''root'' ''pending'' None None
                                   [TaskNode ''3'' ''child'' ''pending'' None None []])))
     new_TaskOrchestrator =
   Inr (''State restored successfully. Plan has 2 task(s).'',
        \<lparr>tasks = [(''1'', \<lparr>t_id = ''1'', t_description = ''root'', t_status = ''pending'',
                          t_parentId = None, t_notes = None, t_result = None, t_subtasks = [''3'']\<rparr>),
                  (''3'', \<lparr>t_id = ''3'', t_description = ''child'', t_status = ''pending'',
                          t_parentId = Some ''1'', t_notes = None, t_result = None, t_subtasks = []\<rparr>)],
         rootTaskId = Some ''1''\<rparr>) \<and>
   addTask ''new'' None None
     \<lparr>tasks = [(''1'', \<lparr>t_id = ''1'', t_description = ''root'', t_status = ''pending'',
                       t_parentId = None, t_notes = None, t_result = None, t_subtasks = [''3'']\<rparr>),
               (''3'', \<lparr>t_id = ''3'', t_description = ''child'', t_status = ''pending'',
                       t_parentId = Some ''1'', t_notes = None, t_result = None, t_subtasks = []\<rparr>)],
      rootTaskId = Some ''1''\<rparr> =
   Inr (''Added task 3: '' @ [CHR 0x22] @ ''new'' @ [CHR 0x22] @ '' to parent 1'',
        \<lparr>tasks = [(''1'', \<lparr>t_id = ''1'', t_description = ''root'', t_status = ''pending'',
                          t_parentId = None, t_notes = None, t_result = None, t_subtasks = [''3'', ''3'']\<rparr>),
                  (''3'', \<lparr>t_id = ''3'', t_description = ''new'', t_status = ''pending'',
                          t_parentId = Some ''1'', t_notes = None, t_result = None, t_subtasks = []\<rparr>)],
         rootTaskId = Some ''1''\<rparr>)"
  by (simp add: restoreState_def addTask_def new_TaskOrchestrator_def toString.simps digit_def Let_def)

section \<open>Restoring a checkpoint\<close>

text \<open>
  C10. When \<open>checkpointId\<close> and \<open>description\<close> are both absent or empty,
  \<open>restoreCheckpoint\<close> returns \<open>success: false\<close> with the message
  \<open>No checkpoint found matching: <description>\<close> (\<open>undefined\<close> for an absent
  description), and the manager (the plan, the checkpoint list and the counter) is
  as before.
\<close>

theorem restoreCheckpoint_without_arguments:
  assumes "\<not> truthy checkpointId" and "\<not> truthy description"
  shows "restoreCheckpoint sim checkpointId description M =
           Inr (\<lparr>r_success = False, r_message = ''No checkpoint found matching: '' @ str description\<rparr>, M)"
  using assms by (simp add: restoreCheckpoint_def restoreCheckpoint_via_def try_catch_def restoreState_call_def resolveCheckpoint_def)

theorem restoreCheckpoint_without_arguments_witness:
  "\<not> truthy None \<and> \<not> truthy None \<and>
   restoreCheckpoint (\<lambda>q t. 1) None None
      \<lparr>orchestrator = snd (createPlan ''goal'' new_TaskOrchestrator),
       checkpoints = [\<lparr>cp_id = ''cp_1'', cp_name = ''first'', cp_description = None,
                       cp_state = Some (TreeState (TaskNode ''1'' ''goal'' ''pending'' None None [])),
                       cp_timestamp = 0\<rparr>],
       nextId = 2\<rparr> =
     Inr (\<lparr>r_success = False, r_message = ''No checkpoint found matching: undefined''\<rparr>,
      \<lparr>orchestrator = snd (createPlan ''goal'' new_TaskOrchestrator),
       checkpoints = [\<lparr>cp_id = ''cp_1'', cp_name = ''first'', cp_description = None,
                       cp_state = Some (TreeState (TaskNode ''1'' ''goal'' ''pending'' None None [])),
                       cp_timestamp = 0\<rparr>],
       nextId = 2\<rparr>)"
  using restoreCheckpoint_without_arguments[of None None "\<lambda>q t. 1"
      "\<lparr>orchestrator = snd (createPlan ''goal'' new_TaskOrchestrator),
       checkpoints = [\<lparr>cp_id = ''cp_1'', cp_name = ''first'', cp_description = None,
                       cp_state = Some (TreeState (TaskNode ''1'' ''goal'' ''pending'' None None [])),
                       cp_timestamp = 0\<rparr>],
       nextId = 2\<rparr>"]
  by simp

section \<open>Looking up and restoring a checkpoint\<close>

lemma findBestMatches_one:
  "findBestMatches sim q items gt (Suc 0) =
     (case sort_key (\<lambda>r. - snd r) (map (\<lambda>item. (item, sim q (gt item))) items) of
        [] \<Rightarrow> []
      | y # ys \<Rightarrow> if snd y > 0.1 then [y] else [])"
  by (simp add: findBestMatches_def split: list.split)

lemma sort_key_head_least:
  assumes "sort_key f xs = y # ys"
  shows "y \<in> set xs \<and> (\<forall>z \<in> set xs. f y \<le> f z)"
proof -
  have "sorted (map f (sort_key f xs))" by (rule sorted_sort_key)
  with assms have "\<forall>z \<in> set (y # ys). f y \<le> f z" by auto
  moreover have "set (y # ys) = set xs" using assms set_sort[of f xs] by simp
  ultimately show ?thesis by auto
qed

lemma resolve_by_description:
  assumes "\<not> truthy cid" "truthy desc"
  shows "resolveCheckpoint sim cid desc cps = Some cp \<Longrightarrow>
           cp \<in> set cps \<and> sim (the desc) (getText cp) > 0.3 \<and>
           (\<forall>c \<in> set cps. sim (the desc) (getText c) \<le> sim (the desc) (getText cp))"
    and "(resolveCheckpoint sim cid desc cps = None) = (\<forall>c \<in> set cps. sim (the desc) (getText c) \<le> 0.3)"
proof -
  let ?xs = "map (\<lambda>item. (item, sim (the desc) (getText item))) cps"
  let ?ys = "sort_key (\<lambda>r. - snd r) ?xs"
  show "resolveCheckpoint sim cid desc cps = Some cp \<Longrightarrow>
           cp \<in> set cps \<and> sim (the desc) (getText cp) > 0.3 \<and>
           (\<forall>c \<in> set cps. sim (the desc) (getText c) \<le> sim (the desc) (getText cp))"
  proof (cases ?ys)
    case Nil
    assume "resolveCheckpoint sim cid desc cps = Some cp"
    with Nil assms show ?thesis
      by (simp add: resolveCheckpoint_def findBestMatches_one)
  next
    case (Cons y ys)
    assume r: "resolveCheckpoint sim cid desc cps = Some cp"
    from sort_key_head_least[OF Cons] have y: "y \<in> set ?xs" "\<forall>z \<in> set ?xs. snd z \<le> snd y"
      by auto
    from r Cons assms have "fst y = cp" "snd y > 0.3"
      by (auto simp: resolveCheckpoint_def findBestMatches_one split: if_splits)
    with y show ?thesis by auto
  qed
  show "(resolveCheckpoint sim cid desc cps = None) = (\<forall>c \<in> set cps. sim (the desc) (getText c) \<le> 0.3)"
  proof (cases ?ys)
    case Nil
    then have "cps = []" by (metis length_0_conv length_map length_sort)
    with assms show ?thesis
      by (simp add: resolveCheckpoint_def findBestMatches_one)
  next
    case (Cons y ys)
    from sort_key_head_least[OF Cons] have y: "y \<in> set ?xs" "\<forall>z \<in> set ?xs. snd z \<le> snd y"
      by auto
    have "(resolveCheckpoint sim cid desc cps = None) = (snd y \<le> 0.3)"
      using Cons assms by (auto simp: resolveCheckpoint_def findBestMatches_one)
    also have "\<dots> = (\<forall>c \<in> set cps. sim (the desc) (getText c) \<le> 0.3)"
      using y by fastforce
    finally show ?thesis .
  qed
qed

lemma find_None_iff_ids: "(find (\<lambda>cp. cp_id cp = i) cps = None) = (\<forall>cp \<in> set cps. cp_id cp \<noteq> i)"
  by (auto simp: find_None_iff)

text \<open>
  C7, as stated, fails for the empty string as \<open>checkpointId\<close>: no stored checkpoint
  has the id \<open>""\<close>, yet the call with the description \<open>alpha\<close> falls through to the
  search by description, finds the checkpoint named \<open>alpha\<close> and restores it, so the
  result is \<open>success: true\<close> and the task added after the checkpoint is gone.
\<close>

theorem restoreCheckpoint_id_miss_not_literal:
  "getCheckpoint '''' example_manager = None \<and>
   restoreCheckpoint exact_match (Some '''') (Some ''alpha'') example_manager =
     Inr (\<lparr>r_success = True,
       r_message = ''Checkpoint '' @ [CHR 0x22] @ ''alpha'' @ [CHR 0x22] @ '' restored successfully.''\<rparr>,
      example_manager\<lparr>orchestrator :=
        \<lparr>tasks = [(''1'', \<lparr>t_id = ''1'', t_description = ''goal'', t_status = ''pending'',
                          t_parentId = None, t_notes = None, t_result = None, t_subtasks = []\<rparr>)],
         rootTaskId = Some ''1''\<rparr>\<rparr>)"
  by (simp add: getCheckpoint_def example_manager_def restoreCheckpoint_def restoreCheckpoint_via_def try_catch_def restoreState_call_def
      resolveCheckpoint_def findBestMatches_def exact_match_def getText_def restoreState_def)

text \<open>
  C7, amended. With a non-empty \<open>checkpointId\<close> that no stored checkpoint has,
  \<open>restoreCheckpoint\<close> returns \<open>success: false\<close> with the message
  \<open>Checkpoint <id> not found.\<close>, whatever the description, and the manager is unchanged.
  With an absent or empty \<open>checkpointId\<close> and a non-empty description, every
  checkpoint's text (name, and after a space the description when there is one) is
  scored against the description; when no score exceeds 0.3 the result is
  \<open>success: false\<close> with \<open>No checkpoint found matching: <description>\<close> and the manager
  is unchanged; when some score exceeds 0.3 the checkpoint resolved is one of the
  highest score.
\<close>

theorem restoreCheckpoint_not_found:
  "(truthy checkpointId \<and> (\<forall>cp \<in> set (checkpoints M). cp_id cp \<noteq> the checkpointId) \<longrightarrow>
      restoreCheckpoint sim checkpointId description M =
        Inr (\<lparr>r_success = False,
          r_message = ''Checkpoint '' @ the checkpointId @ '' not found.''\<rparr>, M)) \<and>
   (\<not> truthy checkpointId \<and> truthy description \<and>
    (\<forall>cp \<in> set (checkpoints M). sim (the description) (getText cp) \<le> 0.3) \<longrightarrow>
      restoreCheckpoint sim checkpointId description M =
        Inr (\<lparr>r_success = False,
          r_message = ''No checkpoint found matching: '' @ the description\<rparr>, M)) \<and>
   (\<not> truthy checkpointId \<and> truthy description \<and>
    (\<exists>c \<in> set (checkpoints M). sim (the description) (getText c) > 0.3) \<longrightarrow>
      (\<exists>cp. resolveCheckpoint sim checkpointId description (checkpoints M) = Some cp \<and>
            cp \<in> set (checkpoints M) \<and> sim (the description) (getText cp) > 0.3 \<and>
            (\<forall>c \<in> set (checkpoints M).
               sim (the description) (getText c) \<le> sim (the description) (getText cp))))"
proof (intro conjI impI)
  assume "truthy checkpointId \<and> (\<forall>cp \<in> set (checkpoints M). cp_id cp \<noteq> the checkpointId)"
  then show "restoreCheckpoint sim checkpointId description M =
        Inr (\<lparr>r_success = False,
          r_message = ''Checkpoint '' @ the checkpointId @ '' not found.''\<rparr>, M)"
    by (simp add: restoreCheckpoint_def restoreCheckpoint_via_def try_catch_def restoreState_call_def resolveCheckpoint_def
        find_None_iff_ids[THEN iffD2])
next
  assume a: "\<not> truthy checkpointId \<and> truthy description \<and>
    (\<forall>cp \<in> set (checkpoints M). sim (the description) (getText cp) \<le> 0.3)"
  then have "resolveCheckpoint sim checkpointId description (checkpoints M) = None"
    using resolve_by_description(2)[of checkpointId description sim "checkpoints M"] by simp
  with a show "restoreCheckpoint sim checkpointId description M =
        Inr (\<lparr>r_success = False,
          r_message = ''No checkpoint found matching: '' @ the description\<rparr>, M)"
    by (cases description) (simp_all add: restoreCheckpoint_def restoreCheckpoint_via_def try_catch_def restoreState_call_def)
next
  assume a: "\<not> truthy checkpointId \<and> truthy description \<and>
    (\<exists>c \<in> set (checkpoints M). sim (the description) (getText c) > 0.3)"
  then have "resolveCheckpoint sim checkpointId description (checkpoints M) \<noteq> None"
    using resolve_by_description(2)[of checkpointId description sim "checkpoints M"]
    by (auto simp: not_le)
  then obtain cp where "resolveCheckpoint sim checkpointId description (checkpoints M) = Some cp"
    by auto
  with a resolve_by_description(1)[of checkpointId description sim "checkpoints M" cp]
  show "\<exists>cp. resolveCheckpoint sim checkpointId description (checkpoints M) = Some cp \<and>
            cp \<in> set (checkpoints M) \<and> sim (the description) (getText cp) > 0.3 \<and>
            (\<forall>c \<in> set (checkpoints M).
               sim (the description) (getText c) \<le> sim (the description) (getText cp))"
    by blast
qed

text \<open>
  On the example manager: the id \<open>cp_9\<close> is not found although the description matches
  a checkpoint; the description \<open>beta\<close> matches nothing; the description \<open>alpha\<close>
  resolves to \<open>cp_1\<close>.
\<close>

theorem restoreCheckpoint_not_found_witness:
  "(truthy (Some ''cp_9'') \<and> getCheckpoint ''cp_9'' example_manager = None \<and>
    restoreCheckpoint exact_match (Some ''cp_9'') (Some ''alpha'') example_manager =
      Inr (\<lparr>r_success = False, r_message = ''Checkpoint cp_9 not found.''\<rparr>, example_manager)) \<and>
   (\<not> truthy None \<and> truthy (Some ''beta'') \<and>
    list_all (\<lambda>cp. exact_match ''beta'' (getText cp) \<le> 0.3) (checkpoints example_manager) \<and>
    restoreCheckpoint exact_match None (Some ''beta'') example_manager =
      Inr (\<lparr>r_success = False, r_message = ''No checkpoint found matching: beta''\<rparr>, example_manager)) \<and>
   (\<exists>c \<in> set (checkpoints example_manager). exact_match ''alpha'' (getText c) > 0.3) \<and>
   (\<exists>cp. resolveCheckpoint exact_match None (Some ''alpha'') (checkpoints example_manager) = Some cp \<and>
         cp_id cp = ''cp_1'')"
proof -
  have 1: "truthy (Some ''cp_9'') \<and> (\<forall>cp \<in> set (checkpoints example_manager). cp_id cp \<noteq> the (Some ''cp_9''))"
    by (simp add: example_manager_def)
  have 2: "\<not> truthy None \<and> truthy (Some ''beta'') \<and>
    (\<forall>cp \<in> set (checkpoints example_manager). exact_match (the (Some ''beta'')) (getText cp) \<le> 0.3)"
    by (simp add: example_manager_def exact_match_def getText_def)
  have 3: "\<not> truthy None \<and> truthy (Some ''alpha'') \<and>
    (\<exists>c \<in> set (checkpoints example_manager). exact_match (the (Some ''alpha'')) (getText c) > 0.3)"
    by (simp add: example_manager_def exact_match_def getText_def)
  from restoreCheckpoint_not_found[of "Some ''cp_9''" example_manager exact_match "Some ''alpha''"] 1
  have a: "restoreCheckpoint exact_match (Some ''cp_9'') (Some ''alpha'') example_manager =
      Inr (\<lparr>r_success = False, r_message = ''Checkpoint cp_9 not found.''\<rparr>, example_manager)"
    by simp
  from restoreCheckpoint_not_found[of None example_manager exact_match "Some ''beta''"] 2
  have b: "restoreCheckpoint exact_match None (Some ''beta'') example_manager =
      Inr (\<lparr>r_success = False, r_message = ''No checkpoint found matching: beta''\<rparr>, example_manager)"
    by simp
  from restoreCheckpoint_not_found[of None example_manager exact_match "Some ''alpha''"] 3
  obtain cp where "resolveCheckpoint exact_match None (Some ''alpha'') (checkpoints example_manager) = Some cp"
    "cp \<in> set (checkpoints example_manager)"
    by auto
  then have c: "\<exists>cp. resolveCheckpoint exact_match None (Some ''alpha'') (checkpoints example_manager) = Some cp \<and>
         cp_id cp = ''cp_1''"
    by (auto simp: example_manager_def)
  have d: "getCheckpoint ''cp_9'' example_manager = None"
    "list_all (\<lambda>cp. exact_match ''beta'' (getText cp) \<le> 0.3) (checkpoints example_manager)"
    by (simp_all add: getCheckpoint_def example_manager_def exact_match_def getText_def)
  from 1 2 3 a b c d show ?thesis by simp
qed

lemma example_manager_built:
  "createCheckpoint 1 ''alpha'' None 0 (new_CheckpointManager (snd (createPlan ''goal'' new_TaskOrchestrator)))
     = Some (Inr (''cp_1'', M1)) \<Longrightarrow>
   addTask ''step'' None None (orchestrator M1) = Inr (msg, S2) \<Longrightarrow>
   M1\<lparr>orchestrator := S2\<rparr> = example_manager"
  by (auto simp: createCheckpoint_def new_CheckpointManager_def createPlan_def getPlanState_def
      addTask_def example_manager_def toString.simps digit_def Let_def)

lemma early_manager_built:
  "createCheckpoint 0 ''early'' None 0 (new_CheckpointManager new_TaskOrchestrator)
     = Some (Inr (''cp_1'', M1)) \<Longrightarrow>
   M1\<lparr>orchestrator := snd (createPlan ''goal'' (orchestrator M1))\<rparr> = early_manager"
  by (auto simp: createCheckpoint_def new_CheckpointManager_def createPlan_def getPlanState_def
      new_TaskOrchestrator_def early_manager_def toString.simps digit_def Let_def)

text \<open>
  C8. \<open>restoreCheckpoint\<close> returns a result and does not throw, for every input and
  every behaviour of the orchestrator's \<open>restoreState\<close>, which may return or throw and
  leave any store; the checkpoint list and the counter are as before. The result is a
  success exactly when a checkpoint is resolved, its state is valid and \<open>restoreState\<close>
  returns. When the resolved checkpoint's state is null or the error object, the result
  is \<open>success: false\<close> with the message \<open>Checkpoint "<name>" has invalid state.\<close> and
  the manager is unchanged, whatever \<open>restoreState\<close> would do: it is not called. When
  \<open>restoreState\<close> throws on a valid state, the result is \<open>success: false\<close> with
  \<open>Error restoring checkpoint: <message>\<close>, and the plan is the one the throwing call
  left.
\<close>

theorem restoreCheckpoint_total:
  "(\<exists>res M'. restoreCheckpoint_via restore sim checkpointId description M = Inr (res, M') \<and>
      checkpoints M' = checkpoints M \<and> nextId M' = nextId M \<and>
      (r_success res =
         (\<exists>cp txt S'. resolveCheckpoint sim checkpointId description (checkpoints M) = Some cp \<and>
                       \<not> invalid_state (cp_state cp) \<and>
                       restore (cp_state cp) (orchestrator M) = Inr (txt, S')))) \<and>
   (\<forall>cp. resolveCheckpoint sim checkpointId description (checkpoints M) = Some cp \<longrightarrow>
      (invalid_state (cp_state cp) \<longrightarrow>
         restoreCheckpoint_via restore sim checkpointId description M =
           Inr (\<lparr>r_success = False,
                 r_message = ''Checkpoint '' @ [CHR 0x22] @ cp_name cp @ [CHR 0x22]
                             @ '' has invalid state.''\<rparr>, M)) \<and>
      (\<forall>e S'. \<not> invalid_state (cp_state cp) \<and> restore (cp_state cp) (orchestrator M) = Inl (e, S') \<longrightarrow>
         restoreCheckpoint_via restore sim checkpointId description M =
           Inr (\<lparr>r_success = False, r_message = ''Error restoring checkpoint: '' @ message e\<rparr>,
                M\<lparr>orchestrator := S'\<rparr>)) \<and>
      (\<forall>txt S'. \<not> invalid_state (cp_state cp) \<and> restore (cp_state cp) (orchestrator M) = Inr (txt, S') \<longrightarrow>
         restoreCheckpoint_via restore sim checkpointId description M =
           Inr (\<lparr>r_success = True,
                 r_message = ''Checkpoint '' @ [CHR 0x22] @ cp_name cp @ [CHR 0x22]
                             @ '' restored successfully.''\<rparr>,
                M\<lparr>orchestrator := S'\<rparr>)))"
proof (cases "resolveCheckpoint sim checkpointId description (checkpoints M)")
  case None
  then show ?thesis by (simp add: restoreCheckpoint_via_def)
next
  case (Some cp)
  show ?thesis
  proof (cases "invalid_state (cp_state cp)")
    case True
    with Some show ?thesis by (simp add: restoreCheckpoint_via_def try_catch_def)
  next
    case False
    show ?thesis
    proof (cases "restore (cp_state cp) (orchestrator M)")
      case (Inl thrown)
      obtain e S' where "thrown = (e, S')" by (cases thrown)
      with Inl Some False show ?thesis by (simp add: restoreCheckpoint_via_def try_catch_def)
    next
      case (Inr returned)
      obtain ok S' where "returned = (ok, S')" by (cases returned)
      with Inr Some False show ?thesis by (simp add: restoreCheckpoint_via_def try_catch_def)
    qed
  qed
qed

text \<open>
  The \<open>restoreState\<close> of the task tree store returns on every valid state, so with it
  the \<open>catch\<close> block is not entered: a restore succeeds exactly when a checkpoint with
  a valid state is resolved.
\<close>

lemma restoreState_returns:
  "\<not> invalid_state state \<Longrightarrow> \<exists>msg S'. restoreState state S = Inr (msg, S')"
  by (cases state rule: invalid_state.cases) (simp_all add: restoreState_def Let_def)

lemma restoreCheckpoint_succeeds_iff:
  "\<exists>res M'. restoreCheckpoint sim checkpointId description M = Inr (res, M') \<and>
     (r_success res =
        (\<exists>cp. resolveCheckpoint sim checkpointId description (checkpoints M) = Some cp \<and>
              \<not> invalid_state (cp_state cp)))"
proof (cases "resolveCheckpoint sim checkpointId description (checkpoints M)")
  case None
  then show ?thesis by (simp add: restoreCheckpoint_def restoreCheckpoint_via_def)
next
  case (Some cp)
  show ?thesis
  proof (cases "invalid_state (cp_state cp)")
    case True
    with Some show ?thesis by (simp add: restoreCheckpoint_def restoreCheckpoint_via_def try_catch_def)
  next
    case False
    from restoreState_returns[OF False, of "orchestrator M"] obtain msg S' where
      "restoreState (cp_state cp) (orchestrator M) = Inr (msg, S')" by blast
    with Some False show ?thesis
      by (simp add: restoreCheckpoint_def restoreCheckpoint_via_def try_catch_def restoreState_call_def)
  qed
qed

text \<open>
  The checkpoint taken before any plan holds the error object: the restore fails even
  with a \<open>restoreState\<close> that accepts everything, and the plan stays. On a valid
  checkpoint, a \<open>restoreState\<close> that clears the store and then throws is turned into a
  failure result, and the plan is gone.
\<close>

theorem restoreCheckpoint_total_witness:
  "resolveCheckpoint exact_match (Some ''cp_1'') None (checkpoints early_manager) =
     Some \<lparr>cp_id = ''cp_1'', cp_name = ''early'', cp_description = None,
           cp_state = Some ErrorState, cp_timestamp = 0\<rparr> \<and>
   invalid_state (Some ErrorState) \<and>
   restoreCheckpoint_via restore_that_accepts exact_match (Some ''cp_1'') None early_manager =
     Inr (\<lparr>r_success = False,
           r_message = ''Checkpoint '' @ [CHR 0x22] @ ''early'' @ [CHR 0x22] @ '' has invalid state.''\<rparr>,
          early_manager) \<and>
   resolveCheckpoint exact_match (Some ''cp_1'') None (checkpoints example_manager) =
     Some \<lparr>cp_id = ''cp_1'', cp_name = ''alpha'', cp_description = None,
           cp_state = Some (TreeState (TaskNode ''1'' ''goal'' ''pending'' None None [])),
           cp_timestamp = 0\<rparr> \<and>
   \<not> invalid_state (Some (TreeState (TaskNode ''1'' ''goal'' ''pending'' None None []))) \<and>
   restore_that_throws (Some (TreeState (TaskNode ''1'' ''goal'' ''pending'' None None [])))
     (orchestrator example_manager) = Inl (TypeError, \<lparr>tasks = [], rootTaskId = None\<rparr>) \<and>
   restoreCheckpoint_via restore_that_throws exact_match (Some ''cp_1'') None example_manager =
     Inr (\<lparr>r_success = False, r_message = ''Error restoring checkpoint: TypeError''\<rparr>,
          example_manager\<lparr>orchestrator := \<lparr>tasks = [], rootTaskId = None\<rparr>\<rparr>) \<and>
   (\<exists>res M'. restoreCheckpoint_via restore_that_throws exact_match (Some ''cp_1'') None example_manager =
       Inr (res, M') \<and> checkpoints M' = checkpoints example_manager \<and> nextId M' = nextId example_manager)"
proof -
  let ?cpE = "\<lparr>cp_id = ''cp_1'', cp_name = ''early'', cp_description = None,
           cp_state = Some ErrorState, cp_timestamp = 0\<rparr>"
  let ?cpA = "\<lparr>cp_id = ''cp_1'', cp_name = ''alpha'', cp_description = None,
           cp_state = Some (TreeState (TaskNode ''1'' ''goal'' ''pending'' None None [])),
           cp_timestamp = 0\<rparr>"
  have 1: "resolveCheckpoint exact_match (Some ''cp_1'') None (checkpoints early_manager) = Some ?cpE"
    by (simp add: resolveCheckpoint_def early_manager_def)
  have 2: "resolveCheckpoint exact_match (Some ''cp_1'') None (checkpoints example_manager) = Some ?cpA"
    by (simp add: resolveCheckpoint_def example_manager_def)
  have 3: "restore_that_throws (cp_state ?cpA) (orchestrator example_manager) =
      Inl (TypeError, \<lparr>tasks = [], rootTaskId = None\<rparr>)"
    by (simp add: restore_that_throws_def example_manager_def)
  from restoreCheckpoint_total[of restore_that_accepts exact_match "Some ''cp_1''" None early_manager] 1
  have a: "restoreCheckpoint_via restore_that_accepts exact_match (Some ''cp_1'') None early_manager =
     Inr (\<lparr>r_success = False,
           r_message = ''Checkpoint '' @ [CHR 0x22] @ ''early'' @ [CHR 0x22] @ '' has invalid state.''\<rparr>,
          early_manager)"
    by simp
  note t = restoreCheckpoint_total[of restore_that_throws exact_match "Some ''cp_1''" None example_manager]
  from t 2 3
  have b: "restoreCheckpoint_via restore_that_throws exact_match (Some ''cp_1'') None example_manager =
     Inr (\<lparr>r_success = False, r_message = ''Error restoring checkpoint: TypeError''\<rparr>,
          example_manager\<lparr>orchestrator := \<lparr>tasks = [], rootTaskId = None\<rparr>\<rparr>)"
    by simp
  from t have c: "\<exists>res M'. restoreCheckpoint_via restore_that_throws exact_match (Some ''cp_1'') None
       example_manager = Inr (res, M') \<and> checkpoints M' = checkpoints example_manager \<and>
       nextId M' = nextId example_manager"
    by blast
  from 1 2 3 a b c show ?thesis by simp
qed

section \<open>Ids allocated by \<open>addTask\<close>\<close>

lemma update_keys_mem: "k \<in> fst ` set al \<Longrightarrow> map fst (AList.update k v al) = map fst al"
  by (simp add: update_keys)

lemma update_keys_fresh: "k \<notin> fst ` set al \<Longrightarrow> map fst (AList.update k v al) = map fst al @ [k]"
  by (simp add: update_keys)

lemma toString_fresh: "toString (Suc n) \<notin> set (map toString [1..<Suc n])"
  by (auto dest: toString_inj)

lemma distinct_toString: "distinct (map toString [1..<Suc n])"
  by (simp add: distinct_map inj_on_def) (auto dest: toString_inj)

lemma createPlan_ids_inv: "ids_inv 1 (snd (createPlan goal S0))"
  by (simp add: ids_inv_def createPlan_def toString_small digit_def)

lemma addTask_ids_inv:
  assumes inv: "ids_inv n S" and add: "addTask d p nt S = Inr (msg, S')"
  shows "ids_inv (Suc n) S' \<and>
         (\<exists>pid. msg = ''Added task '' @ toString (Suc n) @ '': '' @ [CHR 0x22] @ d @ [CHR 0x22]
                        @ '' to parent '' @ pid)"
proof -
  define pk where "pk = (if truthy p then the p else the (rootTaskId S))"
  define newId where "newId = toString (Suc n)"
  from inv have keys: "map fst (tasks S) = map toString [1..<Suc n]"
    by (simp add: ids_inv_def)
  then have len: "length (tasks S) = n"
    by (metis length_map length_upt diff_Suc_1)
  from add obtain parent where par: "map_of (tasks S) pk = Some parent"
    by (auto simp: addTask_def pk_def Let_def split: if_splits option.splits)
  define newTask where "newTask = \<lparr>t_id = newId, t_description = d, t_status = ''pending'',
        t_parentId = Some (t_id parent), t_notes = nt, t_result = None, t_subtasks = []\<rparr>"
  have pk_in: "pk \<in> fst ` set (tasks S)" using par by (rule map_of_Some_key_mem)
  have fresh: "newId \<notin> fst ` set (tasks S)"
    using toString_fresh[of n] keys unfolding newId_def by (metis set_map)
  with pk_in have ne: "pk \<noteq> newId" by auto
  from add par ne len have S': "tasks S' = AList.update pk (parent\<lparr>t_subtasks := t_subtasks parent @ [newId]\<rparr>)
       (AList.update newId newTask (tasks S))"
    and msg: "msg = ''Added task '' @ newId @ '': '' @ [CHR 0x22] @ d @ [CHR 0x22] @ '' to parent '' @ t_id parent"
    by (auto simp: addTask_def pk_def[symmetric] newId_def newTask_def Let_def split: if_splits)
  have "map fst (AList.update newId newTask (tasks S)) = map fst (tasks S) @ [newId]"
    using fresh by (rule update_keys_fresh)
  also have "\<dots> = map toString ([1..<Suc n] @ [Suc n])"
    unfolding keys newId_def by simp
  also have "[1..<Suc n] @ [Suc n] = [1..<Suc (Suc n)]"
    by simp
  finally have keys1: "map fst (AList.update newId newTask (tasks S)) = map toString [1..<Suc (Suc n)]" .
  have "pk \<in> fst ` set (AList.update newId newTask (tasks S))"
    using pk_in by (simp add: dom_update)
  then have "map fst (tasks S') = map fst (AList.update newId newTask (tasks S))"
    unfolding S' by (rule update_keys_mem)
  with keys1 have keys': "map fst (tasks S') = map toString [1..<Suc (Suc n)]"
    by (simp only:)
  have dom': "fst ` set (tasks S') = insert newId (fst ` set (tasks S))"
    using pk_in unfolding S' by (auto simp: dom_update)
  have pid: "t_id parent = pk" using inv par by (simp add: ids_inv_def)
  have "\<forall>k t. map_of (tasks S') k = Some t \<longrightarrow>
        t_id t = k \<and> set (t_subtasks t) \<subseteq> fst ` set (tasks S') \<and>
        (\<forall>q. t_parentId t = Some q \<longrightarrow> q \<in> fst ` set (tasks S'))"
  proof (intro allI impI)
    fix k t assume kt: "map_of (tasks S') k = Some t"
    show "t_id t = k \<and> set (t_subtasks t) \<subseteq> fst ` set (tasks S') \<and>
        (\<forall>q. t_parentId t = Some q \<longrightarrow> q \<in> fst ` set (tasks S'))"
    proof (cases "k = pk")
      case True
      with kt have "t = parent\<lparr>t_subtasks := t_subtasks parent @ [newId]\<rparr>"
        by (simp add: S' update_conv')
      moreover from inv par have "t_id parent = pk" "set (t_subtasks parent) \<subseteq> fst ` set (tasks S)"
        "\<forall>q. t_parentId parent = Some q \<longrightarrow> q \<in> fst ` set (tasks S)"
        by (auto simp: ids_inv_def)
      ultimately show ?thesis using True dom' by auto
    next
      case False
      show ?thesis
      proof (cases "k = newId")
        case True
        with kt False have "t = newTask" by (simp add: S' update_conv')
        then show ?thesis using True pid pk_in dom' by (simp add: newTask_def)
      next
        case k: False
        with kt False have "map_of (tasks S) k = Some t" by (simp add: S' update_conv')
        with inv have "t_id t = k" "set (t_subtasks t) \<subseteq> fst ` set (tasks S)"
          "\<forall>q. t_parentId t = Some q \<longrightarrow> q \<in> fst ` set (tasks S)"
          by (auto simp: ids_inv_def)
        then show ?thesis using dom' by auto
      qed
    qed
  qed
  with keys' msg show ?thesis unfolding ids_inv_def newId_def by blast
qed

lemma addTasks_ids_inv:
  "ids_inv n S \<Longrightarrow> addTasks calls S = Inr (msgs, S') \<Longrightarrow>
     ids_inv (n + length calls) S' \<and> length msgs = length calls \<and>
     (\<forall>k < length calls. \<exists>pid. msgs ! k =
         ''Added task '' @ toString (n + k + 1) @ '': '' @ [CHR 0x22] @ fst (calls ! k) @ [CHR 0x22]
           @ '' to parent '' @ pid)"
proof (induction calls arbitrary: n S msgs)
  case Nil
  then show ?case by simp
next
  case (Cons c calls)
  obtain d p nt where c: "c = (d, p, nt)" by (cases c)
  from Cons.prems(2) c obtain msg S1 msgs1 where
    1: "addTask d p nt S = Inr (msg, S1)" and 2: "addTasks calls S1 = Inr (msgs1, S')"
    and m: "msgs = msg # msgs1"
    by (auto split: sum.splits)
  from addTask_ids_inv[OF Cons.prems(1) 1] have i1: "ids_inv (Suc n) S1"
    and msg: "\<exists>pid. msg = ''Added task '' @ toString (Suc n) @ '': '' @ [CHR 0x22] @ d @ [CHR 0x22]
                        @ '' to parent '' @ pid"
    by auto
  from Cons.IH[OF i1 2] have ih: "ids_inv (Suc n + length calls) S'" "length msgs1 = length calls"
    "\<forall>k < length calls. \<exists>pid. msgs1 ! k =
         ''Added task '' @ toString (Suc n + k + 1) @ '': '' @ [CHR 0x22] @ fst (calls ! k) @ [CHR 0x22]
           @ '' to parent '' @ pid"
    by auto
  have "\<forall>k < length (c # calls). \<exists>pid. msgs ! k =
         ''Added task '' @ toString (n + k + 1) @ '': '' @ [CHR 0x22] @ fst ((c # calls) ! k) @ [CHR 0x22]
           @ '' to parent '' @ pid"
  proof (intro allI impI)
    fix k assume "k < length (c # calls)"
    then show "\<exists>pid. msgs ! k =
         ''Added task '' @ toString (n + k + 1) @ '': '' @ [CHR 0x22] @ fst ((c # calls) ! k) @ [CHR 0x22]
           @ '' to parent '' @ pid"
      using msg ih(3) m c by (cases k) auto
  qed
  with ih(1,2) m show ?case by simp
qed

text \<open>
  C2. After \<open>createPlan\<close> (on any store) and any sequence of \<open>addTask\<close> calls that all
  return: the keys of the map, in insertion order, are the decimal strings of 1 to the
  number of calls plus 1, so they are pairwise distinct; the confirmation of call number
  \<open>k\<close> (from 0) names the id \<open>k + 2\<close>; every task is stored under its own id, and every
  id in a subtasks list or in a \<open>parentId\<close> is a key of the map.
\<close>

theorem addTask_ids_sequential:
  assumes "addTasks calls (snd (createPlan goal S0)) = Inr (msgs, S)"
  shows "map fst (tasks S) = map toString [1..<length calls + 2] \<and>
         distinct (map fst (tasks S)) \<and>
         length msgs = length calls \<and>
         (\<forall>k < length calls. \<exists>pid. msgs ! k =
             ''Added task '' @ toString (k + 2) @ '': '' @ [CHR 0x22] @ fst (calls ! k) @ [CHR 0x22]
               @ '' to parent '' @ pid) \<and>
         (\<forall>k t. map_of (tasks S) k = Some t \<longrightarrow>
            t_id t = k \<and> set (t_subtasks t) \<subseteq> fst ` set (tasks S) \<and>
            (\<forall>p. t_parentId t = Some p \<longrightarrow> p \<in> fst ` set (tasks S)))"
proof -
  from addTasks_ids_inv[OF createPlan_ids_inv assms]
  have i: "ids_inv (1 + length calls) S" and l: "length msgs = length calls"
    and m: "\<forall>k < length calls. \<exists>pid. msgs ! k =
         ''Added task '' @ toString (1 + k + 1) @ '': '' @ [CHR 0x22] @ fst (calls ! k) @ [CHR 0x22]
           @ '' to parent '' @ pid"
    by auto
  from i have k: "map fst (tasks S) = map toString [1..<length calls + 2]"
    by (simp add: ids_inv_def)
  then have "distinct (map fst (tasks S))"
    using distinct_toString[of "Suc (length calls)"] by simp
  with i k l m show ?thesis by (simp add: ids_inv_def)
qed

text \<open>Two calls after \<open>createPlan("goal")\<close>: a task under the root and a task under task 2.\<close>

theorem addTask_ids_sequential_witness:
  "addTasks [(''A'', None, None), (''B'', Some ''2'', Some ''n'')] (snd (createPlan ''goal'' new_TaskOrchestrator)) =
     Inr ([''Added task 2: '' @ [CHR 0x22] @ ''A'' @ [CHR 0x22] @ '' to parent 1'',
           ''Added task 3: '' @ [CHR 0x22] @ ''B'' @ [CHR 0x22] @ '' to parent 2''],
          \<lparr>tasks = [(''1'', \<lparr>t_id = ''1'', t_description = ''goal'', t_status = ''pending'',
                            t_parentId = None, t_notes = None, t_result = None, t_subtasks = [''2'']\<rparr>),
                    (''2'', \<lparr>t_id = ''2'', t_description = ''A'', t_status = ''pending'',
                            t_parentId = Some ''1'', t_notes = None, t_result = None, t_subtasks = [''3'']\<rparr>),
                    (''3'', \<lparr>t_id = ''3'', t_description = ''B'', t_status = ''pending'',
                            t_parentId = Some ''2'', t_notes = Some ''n'', t_result = None, t_subtasks = []\<rparr>)],
           rootTaskId = Some ''1''\<rparr>) \<and>
   map fst [(''1'', \<lparr>t_id = ''1'', t_description = ''goal'', t_status = ''pending'',
                            t_parentId = None, t_notes = None, t_result = None, t_subtasks = [''2'']\<rparr>),
                    (''2'', \<lparr>t_id = ''2'', t_description = ''A'', t_status = ''pending'',
                            t_parentId = Some ''1'', t_notes = None, t_result = None, t_subtasks = [''3'']\<rparr>),
                    (''3'', \<lparr>t_id = ''3'', t_description = ''B'', t_status = ''pending'',
                            t_parentId = Some ''2'', t_notes = Some ''n'', t_result = None, t_subtasks = []\<rparr>)]
     = map toString [1..<4]"
proof -
  have h: "addTasks [(''A'', None, None), (''B'', Some ''2'', Some ''n'')] (snd (createPlan ''goal'' new_TaskOrchestrator)) =
     Inr ([''Added task 2: '' @ [CHR 0x22] @ ''A'' @ [CHR 0x22] @ '' to parent 1'',
           ''Added task 3: '' @ [CHR 0x22] @ ''B'' @ [CHR 0x22] @ '' to parent 2''],
          \<lparr>tasks = [(''1'', \<lparr>t_id = ''1'', t_description = ''goal'', t_status = ''pending'',
                            t_parentId = None, t_notes = None, t_result = None, t_subtasks = [''2'']\<rparr>),
                    (''2'', \<lparr>t_id = ''2'', t_description = ''A'', t_status = ''pending'',
                            t_parentId = Some ''1'', t_notes = None, t_result = None, t_subtasks = [''3'']\<rparr>),
                    (''3'', \<lparr>t_id = ''3'', t_description = ''B'', t_status = ''pending'',
                            t_parentId = Some ''2'', t_notes = Some ''n'', t_result = None, t_subtasks = []\<rparr>)],
           rootTaskId = Some ''1''\<rparr>)"
    by (simp add: createPlan_def addTask_def toString.simps digit_def Let_def)
  have "length [(''A'', None :: string option, None :: string option), (''B'', Some ''2'', Some ''n'')] + 2 = 4"
    by simp
  with addTask_ids_sequential[OF h, THEN conjunct1] have k: "map fst [(''1'', \<lparr>t_id = ''1'', t_description = ''goal'', t_status = ''pending'',
                            t_parentId = None, t_notes = None, t_result = None, t_subtasks = [''2'']\<rparr>),
                    (''2'', \<lparr>t_id = ''2'', t_description = ''A'', t_status = ''pending'',
                            t_parentId = Some ''1'', t_notes = None, t_result = None, t_subtasks = [''3'']\<rparr>),
                    (''3'', \<lparr>t_id = ''3'', t_description = ''B'', t_status = ''pending'',
                            t_parentId = Some ''2'', t_notes = Some ''n'', t_result = None, t_subtasks = []\<rparr>)]
     = map toString [1..<4]"
    by (simp only: TaskOrchestrator.simps)
  from h k show ?thesis by (rule conjI)
qed

section \<open>Rendering the plan\<close>

lemma repeat_spaces: "repeat ''  '' d = replicate (2 * d) CHR '' ''"
  by (induction d) simp_all

lemma collect_map_outcome: "collect (\<lambda>x. map_outcome g (h x)) xs = map_outcome (map g) (collect h xs)"
  by (induction xs) (auto simp: map_outcome_def split: option.splits sum.splits)

lemma printLines_render:
  "printLines depth i d s nt r =
     task_line depth (TaskNode i d s nt r subs) @ detail_line (2 * depth + 4) ''Result: '' r
       @ detail_line (2 * depth + 4) ''Notes: '' nt"
proof -
  have "replicate 4 CHR '' '' = ''    ''"
    by (simp add: numeral_eq_Suc)
  then show ?thesis
    by (simp add: printLines_def task_line_def detail_line_def repeat_spaces Let_def replicate_add
        del: replicate_Suc)
qed

lemma printTask_buildTree:
  "printTask n m taskId depth = map_outcome (render_tree 4 depth) (buildTree n m taskId)"
proof (induction n arbitrary: taskId depth)
  case 0
  show ?case by (simp add: map_outcome_def)
next
  case (Suc n)
  have c: "collect (\<lambda>subId. printTask n m subId (depth + 1)) xs =
           map_outcome (map (render_tree 4 (depth + 1))) (collect (buildTree n m) xs)" for xs
    using Suc.IH collect_map_outcome[of "render_tree 4 (depth + 1)" "buildTree n m"] by simp
  show ?case
  proof (cases "map_of m taskId")
    case None
    then show ?thesis by (simp add: map_outcome_def)
  next
    case (Some task)
    show ?thesis
    proof (cases "collect (buildTree n m) (t_subtasks task)")
      case None
      with Some c show ?thesis by (simp add: map_outcome_def)
    next
      case (Some r)
      with \<open>map_of m taskId = Some task\<close> c show ?thesis
        by (cases r) (simp_all add: map_outcome_def printLines_render[where subs="[]"] task_line_def)
    qed
  qed
qed

text \<open>
  C4, amended. \<open>formatPlan\<close> returns exactly when \<open>getPlanState\<close> returns (and throws
  when it throws). With no active plan it returns \<open>No active plan.\<close>; otherwise it
  returns the line \<open>Current Plan Status:\<close> followed by the exported tree in depth-first
  pre-order, each task line indented two spaces per depth level and written
  \<open><indent><icon> [<id>] <description> (<status>)\<close>, followed by a \<open>Result:\<close> line and
  then a \<open>Notes:\<close> line, each only when its text is non-empty, indented four spaces (two
  indent levels) more than the line of the task.
\<close>

theorem formatPlan_renders_tree:
  "formatPlan fuel S =
     (case getPlanState fuel S of
        None \<Rightarrow> None
      | Some (Inl e) \<Rightarrow> Some (Inl e)
      | Some (Inr ErrorState) \<Rightarrow> Some (Inr ''No active plan.'')
      | Some (Inr (TreeState t)) \<Rightarrow>
          Some (Inr (''Current Plan Status:'' @ [CHR 0x0A] @ render_tree 4 0 t)))"
  by (auto simp: formatPlan_def getPlanState_def printTask_buildTree map_outcome_def
      split: option.splits sum.splits)

lemma example_plan_built:
  "addTask ''Step A'' None None (snd (createPlan ''Build X'' new_TaskOrchestrator)) = Inr (msg1, S1) \<Longrightarrow>
   updateTask ''2'' \<lparr>u_status = Some ''completed'', u_description = None, u_notes = None,
                     u_result = Some ''done''\<rparr> S1 = Inr (msg2, S2) \<Longrightarrow>
   S2 = example_plan"
  by (auto simp: createPlan_def addTask_def updateTask_def example_plan_def toString.simps digit_def
      Let_def)

text \<open>
  C4, as stated, fails on the plan of the specification's own scenario: task 2 is at
  depth 1, its line is indented two spaces, and its \<open>Result:\<close> line is indented six
  spaces, not the four that one extra indent level gives.
\<close>

theorem formatPlan_detail_indent_differs:
  "getPlanState 2 example_plan = Some (Inr (TreeState example_tree)) \<and>
   formatPlan 2 example_plan =
     Some (Inr (''Current Plan Status:'' @ [CHR 0x0A]
                @ getStatusIcon ''pending'' @ '' [1] Build X (pending)'' @ [CHR 0x0A]
                @ ''  '' @ getStatusIcon ''completed'' @ '' [2] Step A (completed)'' @ [CHR 0x0A]
                @ ''      Result: done'' @ [CHR 0x0A])) \<and>
   render_tree 2 0 example_tree =
     getStatusIcon ''pending'' @ '' [1] Build X (pending)'' @ [CHR 0x0A]
       @ ''  '' @ getStatusIcon ''completed'' @ '' [2] Step A (completed)'' @ [CHR 0x0A]
       @ ''    Result: done'' @ [CHR 0x0A] \<and>
   formatPlan 2 example_plan \<noteq>
     Some (Inr (''Current Plan Status:'' @ [CHR 0x0A] @ render_tree 2 0 example_tree))"
  by (simp add: getPlanState_def formatPlan_def example_plan_def example_tree_def numeral_2_eq_2
      printLines_def task_line_def detail_line_def getStatusIcon_def Let_def)

section \<open>Export and restore\<close>

lemma store_inv_createPlan: "store_inv (tasks (snd (createPlan goal S)))"
  by (simp add: store_inv_def createPlan_def)

lemma store_inv_addTask:
  assumes "store_inv (tasks S)" "addTask d p nt S = Inr (msg, S')"
  shows "store_inv (tasks S')"
proof -
  define pk where "pk = (if truthy p then the p else the (rootTaskId S))"
  from assms(2) have r: "truthy (rootTaskId S)"
    by (auto simp: addTask_def split: if_splits)
  have pk: "pk \<noteq> []"
    using r by (cases p; cases "rootTaskId S") (auto simp: pk_def)
  from assms(2) obtain parent where par: "map_of (tasks S) pk = Some parent"
    by (auto simp: addTask_def pk_def Let_def split: if_splits option.splits)
  from assms(1) par have "t_id parent = pk" by (simp add: store_inv_def)
  with assms par pk show ?thesis
    by (auto simp: addTask_def pk_def[symmetric] Let_def store_inv_def update_conv'
        split: if_splits)
qed

lemma store_inv_updateTask:
  assumes "store_inv (tasks S)" "updateTask i u S = Inr (msg, S')"
  shows "store_inv (tasks S')"
  using assms
  by (auto simp: updateTask_def Let_def store_inv_def update_conv' split: option.splits if_splits)

lemma store_inv_restoreTask:
  "store_inv (tasks S) \<Longrightarrow> store_inv (tasks (restoreTask a par S))"
  "store_inv (tasks S) \<Longrightarrow> store_inv (tasks (restoreSubtasks cs p S))"
proof (induction a par S and cs p S rule: restoreTask_restoreSubtasks.induct)
  case (1 i d s nt r subs parentId S)
  let ?task = "\<lparr>t_id = i, t_description = d, t_status = s, t_parentId = parentId,
                   t_notes = nt, t_result = r, t_subtasks = []\<rparr>"
  let ?S1 = "S\<lparr>tasks := AList.update i ?task (tasks S)\<rparr>"
  let ?S2 = "(if \<not> truthy parentId then ?S1\<lparr>rootTaskId := Some i\<rparr>
                else case map_of (tasks ?S1) (the parentId) of
                       None \<Rightarrow> ?S1
                     | Some parent \<Rightarrow>
                         ?S1\<lparr>tasks := AList.update (the parentId)
                                        (parent\<lparr>t_subtasks := t_subtasks parent @ [i]\<rparr>) (tasks ?S1)\<rparr>)"
  have 1: "store_inv (tasks ?S1)"
    using "1.prems" by (auto simp: store_inv_def update_conv')
  have 2: "store_inv (tasks ?S2)"
  proof (cases "truthy parentId")
    case False
    with 1 show ?thesis by simp
  next
    case True
    then obtain p where p: "parentId = Some p" "p \<noteq> []" by (cases parentId) auto
    show ?thesis
    proof (cases "map_of (tasks ?S1) p")
      case None
      with 1 p show ?thesis by simp
    next
      case (Some parent)
      with 1 have "t_id parent = p" unfolding store_inv_def by blast
      with 1 p Some show ?thesis
        unfolding store_inv_def by (auto simp: update_conv' simp del: TaskOrchestrator.simps split: if_splits)
    qed
  qed
  from "1.IH"[OF refl refl refl 2] show ?case by (simp add: Let_def)
next
  case (2 parentId S)
  then show ?case by simp
next
  case (3 c cs parentId S)
  then show ?case by simp
qed

lemma store_inv_restoreState:
  assumes "restoreState state S = Inr (msg, S')"
  shows "store_inv (tasks S')"
proof -
  from assms obtain t where "state = Some (TreeState t)"
    and S': "S' = restoreTask t None (S\<lparr>tasks := [], rootTaskId := None\<rparr>)"
    by (auto simp: restoreState_def Let_def split: option.splits PlanState.splits)
  have "store_inv (tasks (S\<lparr>tasks := [], rootTaskId := None\<rparr>))" by (simp add: store_inv_def)
  then show ?thesis unfolding S' by (rule store_inv_restoreTask)
qed

lemma reachable_store_inv: "reachable S \<Longrightarrow> store_inv (tasks S)"
proof (induction rule: reachable.induct)
  case reachable_new
  show ?case by (simp add: store_inv_def new_TaskOrchestrator_def)
next
  case (reachable_createPlan S goal)
  show ?case by (rule store_inv_createPlan)
next
  case (reachable_addTask S d p nt msg S')
  then show ?case by (auto intro: store_inv_addTask)
next
  case (reachable_updateTask S i updates msg S')
  then show ?case by (auto intro: store_inv_updateTask)
next
  case (reachable_restoreState S state msg S')
  then show ?case by (auto intro: store_inv_restoreState)
qed

lemma collect_Cons_Inr:
  "collect f (x # xs) = Some (Inr ys) \<longleftrightarrow>
     (\<exists>y ys'. ys = y # ys' \<and> f x = Some (Inr y) \<and> collect f xs = Some (Inr ys'))"
  by (auto split: option.splits sum.splits)

lemma collect_Inr_iff:
  "collect f xs = Some (Inr ys) \<longleftrightarrow> list_all2 (\<lambda>x y. f x = Some (Inr y)) xs ys"
proof (induction xs arbitrary: ys)
  case Nil
  show ?case by auto
next
  case (Cons x xs)
  show ?case
    unfolding collect_Cons_Inr list_all2_Cons1 Cons.IH by auto
qed

lemma buildTree_Suc_Inr:
  "buildTree (Suc n) m k = Some (Inr t) \<longleftrightarrow>
     (\<exists>task kids. map_of m k = Some task \<and>
        list_all2 (\<lambda>x y. buildTree n m x = Some (Inr y)) (t_subtasks task) kids \<and>
        t = TaskNode (t_id task) (t_description task) (t_status task) (t_notes task) (t_result task) kids)"
  by (auto simp: collect_Inr_iff[symmetric] split: option.splits sum.splits)

lemma buildTree_mono_Suc:
  "buildTree n m k = Some (Inr t) \<Longrightarrow> buildTree (Suc n) m k = Some (Inr t)"
proof (induction n arbitrary: k t)
  case 0
  then show ?case by simp
next
  case (Suc n)
  from Suc.prems obtain task kids where
    t: "map_of m k = Some task"
       "list_all2 (\<lambda>x y. buildTree n m x = Some (Inr y)) (t_subtasks task) kids"
       "t = TaskNode (t_id task) (t_description task) (t_status task) (t_notes task) (t_result task) kids"
    unfolding buildTree_Suc_Inr by blast
  from t(2) have "list_all2 (\<lambda>x y. buildTree (Suc n) m x = Some (Inr y)) (t_subtasks task) kids"
    by (rule list_all2_mono) (rule Suc.IH)
  with t(1,3) show ?case
    unfolding buildTree_Suc_Inr[of "Suc n"] by blast
qed

lemma buildTree_mono:
  "n \<le> n' \<Longrightarrow> buildTree n m k = Some (Inr t) \<Longrightarrow> buildTree n' m k = Some (Inr t)"
  by (induction rule: dec_induct) (auto intro: buildTree_mono_Suc simp del: buildTree.simps)

lemma buildTree_deterministic:
  assumes "buildTree n m k = Some (Inr a)" "buildTree n' m k = Some (Inr b)"
  shows "a = b"
proof -
  from assms have "buildTree (max n n') m k = Some (Inr a)" "buildTree (max n n') m k = Some (Inr b)"
    by (auto intro: buildTree_mono[rotated])
  then show ?thesis by simp
qed

lemma nodes_self [simp]: "a \<in> set (nodes a)"
  by (cases a) simp

lemma buildTree_nodes:
  assumes "\<forall>k t. map_of m k = Some t \<longrightarrow> t_id t = k"
  shows "buildTree n m k = Some (Inr t) \<Longrightarrow>
           n_id t = k \<and> (\<forall>a \<in> set (nodes t). \<exists>n'. buildTree n' m (n_id a) = Some (Inr a))"
proof (induction n arbitrary: k t)
  case 0
  then show ?case by simp
next
  case (Suc n)
  from Suc.prems obtain task kids where
    t: "map_of m k = Some task"
       "list_all2 (\<lambda>x y. buildTree n m x = Some (Inr y)) (t_subtasks task) kids"
       "t = TaskNode (t_id task) (t_description task) (t_status task) (t_notes task) (t_result task) kids"
    unfolding buildTree_Suc_Inr by blast
  from assms t(1) have id: "t_id task = k" by blast
  have "\<exists>n'. buildTree n' m (n_id a) = Some (Inr a)" if "a \<in> set (nodes t)" for a
  proof (cases "a = t")
    case True
    with Suc.prems id t(3) show ?thesis by (auto intro: exI[of _ "Suc n"] simp del: buildTree.simps)
  next
    case False
    with that t(3) obtain kid where kid: "kid \<in> set kids" "a \<in> set (nodes kid)" by auto
    from kid(1) t(2) obtain x where "buildTree n m x = Some (Inr kid)"
      by (auto simp: list_all2_conv_all_nth in_set_conv_nth)
    from Suc.IH[OF this] kid(2) show ?thesis by blast
  qed
  with id t(3) show ?case by simp
qed

lemma buildTree_unfolding:
  assumes inv: "store_inv m" and b: "buildTree n m k = Some (Inr t)"
  shows "unfolding_of (nodes t)"
proof -
  from inv have keyid: "\<forall>k t. map_of m k = Some t \<longrightarrow> t_id t = k"
    by (simp add: store_inv_def)
  from buildTree_nodes[OF keyid b]
  have ex: "\<forall>a \<in> set (nodes t). \<exists>n'. buildTree n' m (n_id a) = Some (Inr a)" by simp
  have 1: "a = b" if "a \<in> set (nodes t)" "b \<in> set (nodes t)" "n_id a = n_id b" for a b
    using ex that by (metis buildTree_deterministic)
  have 2: "n_subtasks a = []" if "a \<in> set (nodes t)" "n_id a = []" for a
  proof -
    from ex that obtain n' where n': "buildTree n' m [] = Some (Inr a)" by metis
    then obtain n'' where "n' = Suc n''" by (cases n') auto
    with n' have "buildTree (Suc n'') m [] = Some (Inr a)" by simp
    then obtain task kids where
      "map_of m [] = Some task"
      "list_all2 (\<lambda>x y. buildTree n'' m x = Some (Inr y)) (t_subtasks task) kids"
      "a = TaskNode (t_id task) (t_description task) (t_status task) (t_notes task) (t_result task) kids"
      unfolding buildTree_Suc_Inr by blast
    with inv show ?thesis by (auto simp: store_inv_def)
  qed
  from 1 2 show ?thesis unfolding unfolding_of_def by blast
qed

lemma push_Nil [simp]: "push [] t = t"
  by (simp add: push_def)

lemma push_push [simp]: "push ys (push xs t) = push (xs @ ys) t"
  by (simp add: push_def)

lemma restored_Nil: "restored [] p [] S S"
  by (simp add: restored_def option.map_ident cong: option.map_cong)

lemma unfolding_of_subset: "unfolding_of ns \<Longrightarrow> set ns' \<subseteq> set ns \<Longrightarrow> unfolding_of ns'"
  unfolding unfolding_of_def by blast

lemma restored_append:
  assumes 1: "restored ns1 p ids1 S S1" and 2: "restored ns2 p ids2 S1 S2"
    and u: "unfolding_of (ns1 @ ns2)" and p: "p \<notin> n_id ` set (ns1 @ ns2)"
  shows "restored (ns1 @ ns2) p (ids1 @ ids2) S S2"
proof -
  have root: "rootTaskId S2 = rootTaskId S"
    using 1 2 by (simp add: restored_def)
  have nodes: "\<exists>task. map_of (tasks S2) (n_id b) = Some task \<and> represents task b"
    if b: "b \<in> set (ns1 @ ns2)" for b
  proof (cases "n_id b \<in> n_id ` set ns2")
    case True
    then obtain b' where b': "b' \<in> set ns2" "n_id b' = n_id b" by auto
    with u b have "b' = b" unfolding unfolding_of_def by auto
    with b' 2 show ?thesis by (auto simp: restored_def)
  next
    case False
    with b have b1: "b \<in> set ns1" by auto
    from b p have "n_id b \<noteq> p" by auto
    with False 2 have "map_of (tasks S2) (n_id b) = map_of (tasks S1) (n_id b)"
      by (simp add: restored_def)
    with b1 1 show ?thesis by (auto simp: restored_def)
  qed
  have same: "map_of (tasks S2) k = map_of (tasks S) k" if "k \<notin> n_id ` set (ns1 @ ns2)" "k \<noteq> p" for k
    using that 1 2 by (simp add: restored_def image_Un)
  have par: "map_of (tasks S2) p = map_option (push (ids1 @ ids2)) (map_of (tasks S) p)"
    using 1 2 by (simp add: restored_def option.map_comp comp_def)
  from root nodes same par show ?thesis unfolding restored_def by blast
qed

lemma restoreSubtasks_restored:
  assumes IH: "\<And>c S. c \<in> set cs \<Longrightarrow> restored (nodes c) p [n_id c] S (restoreTask c (Some p) S)"
    and u: "unfolding_of (concat (map nodes cs))"
    and p: "p \<notin> n_id ` set (concat (map nodes cs))"
  shows "restored (concat (map nodes cs)) p (map n_id cs) S (restoreSubtasks cs p S)"
  using assms
proof (induction cs arbitrary: S)
  case Nil
  show ?case by (simp add: restored_Nil)
next
  case (Cons c cs)
  have 1: "restored (nodes c) p [n_id c] S (restoreTask c (Some p) S)"
    by (rule Cons.prems(1)) simp
  have 2: "restored (concat (map nodes cs)) p (map n_id cs) (restoreTask c (Some p) S)
             (restoreSubtasks cs p (restoreTask c (Some p) S))"
  proof (rule Cons.IH)
    show "restored (nodes c') p [n_id c'] S' (restoreTask c' (Some p) S')" if "c' \<in> set cs" for c' S'
      using that by (intro Cons.prems(1)) simp
    show "unfolding_of (concat (map nodes cs))"
      using Cons.prems(2) by (rule unfolding_of_subset) auto
    show "p \<notin> n_id ` set (concat (map nodes cs))"
      using Cons.prems(3) by auto
  qed
  from restored_append[OF 1 2] Cons.prems(2,3) show ?case by simp
qed

lemma nodes_height: "b \<in> set (nodes c) \<Longrightarrow> height b \<le> height c"
proof (induction c arbitrary: b)
  case (TaskNode i d s nt r subs)
  show ?case
  proof (cases "b = TaskNode i d s nt r subs")
    case True
    then show ?thesis by simp
  next
    case False
    with TaskNode.prems obtain c where c: "c \<in> set subs" "b \<in> set (nodes c)" by auto
    then have "height b \<le> height c" by (rule TaskNode.IH)
    moreover have "height c \<le> foldr max (map height subs) 0"
      using c(1) by (induction subs) auto
    ultimately show ?thesis by simp
  qed
qed

lemma child_height: "c \<in> set subs \<Longrightarrow> height c \<le> foldr max (map height subs) 0"
  by (induction subs) auto

lemma nodes_trans: "b \<in> set (nodes t) \<Longrightarrow> set (nodes b) \<subseteq> set (nodes t)"
proof (induction t arbitrary: b)
  case (TaskNode i d s nt r subs)
  show ?case
  proof (cases "b = TaskNode i d s nt r subs")
    case True
    then show ?thesis by simp
  next
    case False
    with TaskNode.prems obtain c where c: "c \<in> set subs" "b \<in> set (nodes c)" by auto
    then have "set (nodes b) \<subseteq> set (nodes c)" by (rule TaskNode.IH)
    with c(1) show ?thesis by auto
  qed
qed

lemma own_id_not_below:
  assumes u: "unfolding_of (nodes (TaskNode i d s nt r subs))"
  shows "i \<notin> n_id ` set (concat (map nodes subs))"
proof
  assume "i \<in> n_id ` set (concat (map nodes subs))"
  then obtain c b where c: "c \<in> set subs" "b \<in> set (nodes c)" "n_id b = i" by auto
  let ?a = "TaskNode i d s nt r subs"
  from c have "b \<in> set (nodes ?a)" by auto
  with u c(3) have "b = ?a" unfolding unfolding_of_def by (auto simp del: nodes.simps)
  moreover from c have "height b \<le> height c" "height c \<le> foldr max (map height subs) 0"
    by (auto intro: nodes_height child_height)
  ultimately show False by simp
qed

lemma restoreTask_restored:
  "p \<noteq> [] \<Longrightarrow> p \<notin> n_id ` set (nodes a) \<Longrightarrow> unfolding_of (nodes a) \<Longrightarrow>
     restored (nodes a) p [n_id a] S (restoreTask a (Some p) S)"
proof (induction a arbitrary: p S)
  case (TaskNode i d s nt r subs)
  let ?a = "TaskNode i d s nt r subs"
  let ?task = "\<lparr>t_id = i, t_description = d, t_status = s, t_parentId = Some p,
                 t_notes = nt, t_result = r, t_subtasks = []\<rparr>"
  let ?forest = "concat (map nodes subs)"
  define S2 where "S2 = (case map_of (tasks S) p of
                       None \<Rightarrow> S\<lparr>tasks := AList.update i ?task (tasks S)\<rparr>
                     | Some parent \<Rightarrow>
                         S\<lparr>tasks := AList.update p (push [i] parent) (AList.update i ?task (tasks S))\<rparr>)"
  from TaskNode.prems(2) have pi: "p \<noteq> i" by auto
  have S': "restoreTask ?a (Some p) S = restoreSubtasks subs i S2"
    using TaskNode.prems(1) pi
    by (simp add: S2_def Let_def update_conv' push_def split: option.splits)
  have m2: "map_of (tasks S2) = (map_of (tasks S))(i \<mapsto> ?task, p := map_option (push [i]) (map_of (tasks S) p))"
    using pi by (auto simp: S2_def update_conv' split: option.splits)
  have r2: "rootTaskId S2 = rootTaskId S"
    by (simp add: S2_def split: option.splits)
  have uf: "unfolding_of ?forest"
    using TaskNode.prems(3) by (rule unfolding_of_subset) auto
  have i_below: "i \<notin> n_id ` set ?forest"
    using TaskNode.prems(3) by (rule own_id_not_below)
  have p_below: "p \<notin> n_id ` set ?forest"
    using TaskNode.prems(2) by auto
  have forest: "restored ?forest i (map n_id subs) S2 (restoreSubtasks subs i S2)"
  proof (cases "subs = []")
    case True
    then show ?thesis by (simp add: restored_Nil)
  next
    case False
    with TaskNode.prems(3) have i: "i \<noteq> []"
      unfolding unfolding_of_def by auto
    show ?thesis
    proof (rule restoreSubtasks_restored)
      fix c S0 assume c: "c \<in> set subs"
      show "restored (nodes c) i [n_id c] S0 (restoreTask c (Some i) S0)"
      proof (rule TaskNode.IH[OF c i])
        show "i \<notin> n_id ` set (nodes c)" using i_below c by auto
        show "unfolding_of (nodes c)" using uf by (rule unfolding_of_subset) (use c in auto)
      qed
    qed (rule uf, rule i_below)
  qed
  let ?S' = "restoreSubtasks subs i S2"
  have root: "rootTaskId ?S' = rootTaskId S"
    using forest r2 by (simp add: restored_def)
  have self: "map_of (tasks ?S') i = Some (push (map n_id subs) ?task)"
    using forest m2 pi by (simp add: restored_def)
  have nodes: "\<exists>task. map_of (tasks ?S') (n_id b) = Some task \<and> represents task b"
    if b: "b \<in> set (nodes ?a)" for b
  proof (cases "b = ?a")
    case True
    with self show ?thesis by (simp add: represents_def push_def)
  next
    case False
    with b have "b \<in> set ?forest" by simp
    with forest show ?thesis unfolding restored_def by blast
  qed
  have same: "map_of (tasks ?S') k = map_of (tasks S) k" if "k \<notin> n_id ` set (nodes ?a)" "k \<noteq> p" for k
  proof -
    from that have "k \<notin> n_id ` set ?forest" "k \<noteq> i" by auto
    with forest have "map_of (tasks ?S') k = map_of (tasks S2) k" by (simp add: restored_def)
    with that(2) \<open>k \<noteq> i\<close> m2 show ?thesis by simp
  qed
  have par: "map_of (tasks ?S') p = map_option (push [i]) (map_of (tasks S) p)"
  proof -
    from forest p_below pi have "map_of (tasks ?S') p = map_of (tasks S2) p" by (simp add: restored_def)
    with m2 show ?thesis by simp
  qed
  from root nodes same par show ?case
    unfolding S' restored_def by (simp del: nodes.simps) 
qed

lemma restoreTask_root:
  fixes S :: TaskOrchestrator
  assumes u: "unfolding_of (nodes t)" and i: "n_id t \<noteq> []"
  defines "S' \<equiv> restoreTask t None (S\<lparr>tasks := [], rootTaskId := None\<rparr>)"
  shows "rootTaskId S' = Some (n_id t)"
    and "\<forall>b \<in> set (nodes t). \<exists>task. map_of (tasks S') (n_id b) = Some task \<and> represents task b"
proof -
  obtain i d s nt r subs where t: "t = TaskNode i d s nt r subs" by (cases t)
  let ?task = "\<lparr>t_id = i, t_description = d, t_status = s, t_parentId = None,
                 t_notes = nt, t_result = r, t_subtasks = []\<rparr>"
  let ?forest = "concat (map nodes subs)"
  define S2 where "S2 = S\<lparr>tasks := [(i, ?task)], rootTaskId := Some i\<rparr>"
  have S': "S' = restoreSubtasks subs i S2"
    by (simp add: S'_def t S2_def)
  from i t have i: "i \<noteq> []" by simp
  have uf: "unfolding_of ?forest"
    using u unfolding t by (rule unfolding_of_subset) auto
  have i_below: "i \<notin> n_id ` set ?forest"
    using u unfolding t by (rule own_id_not_below)
  have forest: "restored ?forest i (map n_id subs) S2 S'"
    unfolding S'
  proof (rule restoreSubtasks_restored)
    fix c S0 assume c: "c \<in> set subs"
    show "restored (nodes c) i [n_id c] S0 (restoreTask c (Some i) S0)"
    proof (rule restoreTask_restored[OF i])
      show "i \<notin> n_id ` set (nodes c)" using i_below c by auto
      show "unfolding_of (nodes c)" using uf by (rule unfolding_of_subset) (use c in auto)
    qed
  qed (rule uf, rule i_below)
  show "rootTaskId S' = Some (n_id t)"
    using forest by (simp add: restored_def S2_def t)
  have self: "map_of (tasks S') i = Some (push (map n_id subs) ?task)"
    using forest by (simp add: restored_def S2_def)
  show "\<forall>b \<in> set (nodes t). \<exists>task. map_of (tasks S') (n_id b) = Some task \<and> represents task b"
  proof
    fix b assume b: "b \<in> set (nodes t)"
    show "\<exists>task. map_of (tasks S') (n_id b) = Some task \<and> represents task b"
    proof (cases "b = t")
      case True
      with self show ?thesis by (simp add: represents_def push_def t)
    next
      case False
      with b have "b \<in> set ?forest" by (simp add: t)
      with forest show ?thesis unfolding restored_def by blast
    qed
  qed
qed

lemma buildTree_represented:
  assumes rep: "\<forall>b \<in> set (nodes t). \<exists>task. map_of m (n_id b) = Some task \<and> represents task b"
  shows "b \<in> set (nodes t) \<Longrightarrow> buildTree (height b) m (n_id b) = Some (Inr b)"
proof (induction b)
  case (TaskNode i d s nt r subs)
  let ?b = "TaskNode i d s nt r subs"
  let ?H = "foldr max (map height subs) 0"
  from rep TaskNode.prems obtain task where task: "map_of m i = Some task" "represents task ?b"
    by fastforce
  have kids: "buildTree ?H m (n_id c) = Some (Inr c)" if c: "c \<in> set subs" for c
  proof -
    from c have "c \<in> set (concat (map nodes subs))" by (auto intro!: bexI[of _ c])
    then have "c \<in> set (nodes ?b)" by simp
    with nodes_trans[OF TaskNode.prems] have "c \<in> set (nodes t)" by blast
    with c have "buildTree (height c) m (n_id c) = Some (Inr c)" by (rule TaskNode.IH)
    with child_height[OF c] show ?thesis by (rule buildTree_mono)
  qed
  have "list_all2 (\<lambda>x y. buildTree ?H m x = Some (Inr y)) (map n_id subs) subs"
    using kids by (simp add: list_all2_map1 list.rel_refl_strong)
  with task have "buildTree (Suc ?H) m i = Some (Inr ?b)"
    unfolding buildTree_Suc_Inr by (auto simp: represents_def)
  then show ?case by simp
qed

subsection \<open>Plans built without a restore\<close>

text \<open>
  A store built by \<open>createPlan\<close>, \<open>addTask\<close> and \<open>updateTask\<close> alone keeps the
  invariant \<open>plan_inv\<close>, so the recursion of \<open>getPlanState\<close> descends to ever greater
  ids and returns within as many levels as there are tasks.
\<close>

lemma createPlan_any: "createPlan goal S = createPlan goal new_TaskOrchestrator"
  by (simp add: createPlan_def)

lemma built_reachable: "built S \<Longrightarrow> reachable S"
proof (induction rule: built.induct)
  case (built_createPlan goal S)
  have "reachable (snd (createPlan goal new_TaskOrchestrator))"
    by (intro reachable.intros)
  then show ?case by (simp add: createPlan_def)
next
  case (built_addTask S description parentId nt msg S')
  then show ?case by (auto intro: reachable_addTask)
next
  case (built_updateTask S i updates msg S')
  then show ?case by (auto intro: reachable_updateTask)
qed

lemma ids_inv_keys: "ids_inv n S \<Longrightarrow> fst ` set (tasks S) = toString ` {1..n}"
proof -
  assume "ids_inv n S"
  then have "map fst (tasks S) = map toString [1..<Suc n]" by (simp add: ids_inv_def)
  then have "set (map fst (tasks S)) = set (map toString [1..<Suc n])" by (simp only:)
  then show ?thesis by (simp only: set_map set_upt atLeastLessThanSuc_atLeastAtMost)
qed

lemma ids_inv_length: "ids_inv n S \<Longrightarrow> length (tasks S) = n"
proof -
  assume "ids_inv n S"
  then have "map fst (tasks S) = map toString [1..<Suc n]" by (simp add: ids_inv_def)
  then have "length (map fst (tasks S)) = length (map toString [1..<Suc n])" by simp
  then show ?thesis by simp
qed

lemma ids_inv_key_range:
  assumes "ids_inv n S" "map_of (tasks S) (toString k) = Some t"
  shows "1 \<le> k \<and> k \<le> n"
proof -
  from map_of_Some_key_mem[OF assms(2)] ids_inv_keys[OF assms(1)]
  obtain j where "toString k = toString j" "j \<in> {1..n}" by auto
  with toString_inj[of k j] show ?thesis by simp
qed

lemma ids_inv_lookup:
  assumes "ids_inv n S" "1 \<le> k" "k \<le> n"
  shows "\<exists>t. map_of (tasks S) (toString k) = Some t"
proof -
  from assms ids_inv_keys[OF assms(1)] have "toString k \<in> fst ` set (tasks S)" by auto
  then show ?thesis by (metis domD dom_map_of_conv_image_fst)
qed

lemma createPlan_plan_inv: "plan_inv 1 (snd (createPlan goal S))"
  unfolding plan_inv_def
proof (intro conjI allI impI)
  show "ids_inv 1 (snd (createPlan goal S))" by (rule createPlan_ids_inv)
  show "0 < (1::nat)" by simp
  show "rootTaskId (snd (createPlan goal S)) = Some (toString 1)"
    by (simp add: createPlan_def toString_small digit_def)
  show "\<forall>c \<in> set (t_subtasks t). \<exists>j. c = toString j \<and> k < j"
    if "map_of (tasks (snd (createPlan goal S))) (toString k) = Some t" for k t
    using that by (auto simp: createPlan_def split: if_splits)
qed

lemma addTask_shape:
  assumes inv: "ids_inv n S" and add: "addTask d p nt S = Inr (msg, S')"
  shows "\<exists>pk parent newTask.
           map_of (tasks S) pk = Some parent \<and> pk \<noteq> toString (Suc n) \<and> t_subtasks newTask = [] \<and>
           map_of (tasks S') =
             (map_of (tasks S))(toString (Suc n) \<mapsto> newTask,
                                pk \<mapsto> parent\<lparr>t_subtasks := t_subtasks parent @ [toString (Suc n)]\<rparr>) \<and>
           rootTaskId S' = rootTaskId S"
proof -
  define pk where "pk = (if truthy p then the p else the (rootTaskId S))"
  define newId where "newId = toString (Suc n)"
  from ids_inv_length[OF inv] have len: "length (tasks S) = n" .
  from add obtain parent where par: "map_of (tasks S) pk = Some parent"
    by (auto simp: addTask_def pk_def Let_def split: if_splits option.splits)
  define newTask where "newTask = \<lparr>t_id = newId, t_description = d, t_status = ''pending'',
        t_parentId = Some (t_id parent), t_notes = nt, t_result = None, t_subtasks = []\<rparr>"
  have ne: "pk \<noteq> newId"
  proof
    assume "pk = newId"
    with par have "map_of (tasks S) (toString (Suc n)) = Some parent" by (simp add: newId_def)
    from ids_inv_key_range[OF inv this] show False by simp
  qed
  from add par ne len have S': "tasks S' = AList.update pk (parent\<lparr>t_subtasks := t_subtasks parent @ [newId]\<rparr>)
       (AList.update newId newTask (tasks S))" and root: "rootTaskId S' = rootTaskId S"
    by (auto simp: addTask_def pk_def[symmetric] newId_def newTask_def Let_def split: if_splits)
  have "map_of (tasks S') = (map_of (tasks S))(newId \<mapsto> newTask,
          pk \<mapsto> parent\<lparr>t_subtasks := t_subtasks parent @ [newId]\<rparr>)"
    unfolding S' by (simp add: update_conv')
  moreover have "t_subtasks newTask = []" by (simp add: newTask_def)
  ultimately show ?thesis using par ne root unfolding newId_def by blast
qed

lemma addTask_plan_inv:
  assumes inv: "plan_inv n S" and add: "addTask d p nt S = Inr (msg, S')"
  shows "plan_inv (Suc n) S'"
proof -
  from inv have ids: "ids_inv n S" by (simp add: plan_inv_def)
  from addTask_shape[OF ids add] obtain pk parent newTask where
    s: "map_of (tasks S) pk = Some parent" "pk \<noteq> toString (Suc n)" "t_subtasks newTask = []"
       "map_of (tasks S') =
             (map_of (tasks S))(toString (Suc n) \<mapsto> newTask,
                                pk \<mapsto> parent\<lparr>t_subtasks := t_subtasks parent @ [toString (Suc n)]\<rparr>)"
       "rootTaskId S' = rootTaskId S"
    by blast
  show ?thesis
    unfolding plan_inv_def
  proof (intro conjI allI impI)
    show "ids_inv (Suc n) S'" using addTask_ids_inv[OF ids add] by simp
    show "0 < Suc n" by simp
    show "rootTaskId S' = Some (toString 1)" using inv s(5) by (simp add: plan_inv_def)
    show "\<forall>c \<in> set (t_subtasks t). \<exists>j. c = toString j \<and> k < j"
      if kt: "map_of (tasks S') (toString k) = Some t" for k t
    proof (cases "toString k = pk")
      case True
      with kt s(4) have t: "t = parent\<lparr>t_subtasks := t_subtasks parent @ [toString (Suc n)]\<rparr>" by simp
      from True s(1) have old: "map_of (tasks S) (toString k) = Some parent" by simp
      from ids_inv_key_range[OF ids old] have "k < Suc n" by simp
      moreover from inv old have "\<forall>c \<in> set (t_subtasks parent). \<exists>j. c = toString j \<and> k < j"
        unfolding plan_inv_def by blast
      ultimately show ?thesis unfolding t by auto
    next
      case False
      show ?thesis
      proof (cases "toString k = toString (Suc n)")
        case True
        with kt s(4) False have "t = newTask" by simp
        with s(3) show ?thesis by simp
      next
        case new: False
        with kt s(4) False have "map_of (tasks S) (toString k) = Some t" by simp
        with inv show ?thesis unfolding plan_inv_def by blast
      qed
    qed
  qed
qed

lemma updateTask_shape:
  assumes "updateTask i u S = Inr (msg, S')"
  shows "\<exists>task task'. map_of (tasks S) i = Some task \<and> tasks S' = AList.update i task' (tasks S) \<and>
           t_id task' = t_id task \<and> t_subtasks task' = t_subtasks task \<and>
           t_parentId task' = t_parentId task \<and> rootTaskId S' = rootTaskId S"
proof (cases "map_of (tasks S) i")
  case None
  with assms show ?thesis by (simp add: updateTask_def)
next
  case (Some task)
  with assms show ?thesis
    by (auto simp: updateTask_def Let_def)
qed

lemma updateTask_plan_inv:
  assumes inv: "plan_inv n S" and upd: "updateTask i u S = Inr (msg, S')"
  shows "plan_inv n S'"
proof -
  from updateTask_shape[OF upd] obtain task task' where
    s: "map_of (tasks S) i = Some task" "tasks S' = AList.update i task' (tasks S)"
       "t_id task' = t_id task" "t_subtasks task' = t_subtasks task"
       "t_parentId task' = t_parentId task" "rootTaskId S' = rootTaskId S"
    by blast
  from inv have ids: "ids_inv n S" by (simp add: plan_inv_def)
  have keys: "map fst (tasks S') = map fst (tasks S)"
    unfolding s(2) using map_of_Some_key_mem[OF s(1)] by (rule update_keys_mem)
  have m: "map_of (tasks S') = (map_of (tasks S))(i \<mapsto> task')"
    unfolding s(2) by (simp add: update_conv')
  have dom: "fst ` set (tasks S') = fst ` set (tasks S)"
    using keys by (metis set_map)
  have same: "t_id t' = k \<and> t_subtasks t' = t_subtasks t0 \<and> t_parentId t' = t_parentId t0 \<and>
               map_of (tasks S) k = Some t0"
    if "map_of (tasks S') k = Some t'" "t0 = the (map_of (tasks S) k)" for k t' t0
  proof (cases "k = i")
    case True
    with that m s ids show ?thesis by (auto simp: ids_inv_def)
  next
    case False
    with that m ids show ?thesis by (auto simp: ids_inv_def)
  qed
  show ?thesis
    unfolding plan_inv_def
  proof (intro conjI allI impI)
    show "ids_inv n S'"
      unfolding ids_inv_def
    proof (intro conjI allI impI)
      show "map fst (tasks S') = map toString [1..<Suc n]" using keys ids by (simp add: ids_inv_def)
    next
      fix k t assume kt: "map_of (tasks S') k = Some t"
      from same[OF kt refl] have a: "t_id t = k" "t_subtasks t = t_subtasks (the (map_of (tasks S) k))"
        "t_parentId t = t_parentId (the (map_of (tasks S) k))"
        "map_of (tasks S) k = Some (the (map_of (tasks S) k))" by simp_all
      from ids a(4) have "set (t_subtasks (the (map_of (tasks S) k))) \<subseteq> fst ` set (tasks S)"
        unfolding ids_inv_def by blast
      with a(2) dom show "set (t_subtasks t) \<subseteq> fst ` set (tasks S')" by simp
      show "t_id t = k" by (rule a(1))
    next
      fix k t q assume kt: "map_of (tasks S') k = Some t" and q: "t_parentId t = Some q"
      from same[OF kt refl] have a: "t_parentId t = t_parentId (the (map_of (tasks S) k))"
        "map_of (tasks S) k = Some (the (map_of (tasks S) k))" by simp_all
      from ids a(2) q a(1) have "q \<in> fst ` set (tasks S)"
        unfolding ids_inv_def by metis
      with dom show "q \<in> fst ` set (tasks S')" by simp
    qed
    show "0 < n" using inv by (simp add: plan_inv_def)
    show "rootTaskId S' = Some (toString 1)" using inv s(6) by (simp add: plan_inv_def)
    show "\<forall>c \<in> set (t_subtasks t). \<exists>j. c = toString j \<and> k < j"
      if kt: "map_of (tasks S') (toString k) = Some t" for k t
    proof -
      from same[OF kt refl] have a: "t_subtasks t = t_subtasks (the (map_of (tasks S) (toString k)))"
        "map_of (tasks S) (toString k) = Some (the (map_of (tasks S) (toString k)))" by simp_all
      from inv a(2) have "\<forall>c \<in> set (t_subtasks (the (map_of (tasks S) (toString k)))). \<exists>j. c = toString j \<and> k < j"
        unfolding plan_inv_def by blast
      with a(1) show ?thesis by simp
    qed
  qed
qed

lemma built_plan_inv: "built S \<Longrightarrow> plan_inv (length (tasks S)) S"
proof (induction rule: built.induct)
  case (built_createPlan goal S)
  have "length (tasks (snd (createPlan goal S))) = 1" by (simp add: createPlan_def)
  with createPlan_plan_inv[of goal S] show ?case by simp
next
  case (built_addTask S description parentId nt msg S')
  from addTask_plan_inv[OF built_addTask.IH built_addTask.hyps(2)]
  have p: "plan_inv (Suc (length (tasks S))) S'" .
  then have "ids_inv (Suc (length (tasks S))) S'" by (simp add: plan_inv_def)
  from ids_inv_length[OF this] p show ?case by simp
next
  case (built_updateTask S i updates msg S')
  from updateTask_plan_inv[OF built_updateTask.IH built_updateTask.hyps(2)]
  have p: "plan_inv (length (tasks S)) S'" .
  then have "ids_inv (length (tasks S)) S'" by (simp add: plan_inv_def)
  from ids_inv_length[OF this] p show ?case by simp
qed

lemma list_all2_exists:
  "(\<And>x. x \<in> set xs \<Longrightarrow> \<exists>y. P x y) \<Longrightarrow> \<exists>ys. list_all2 P xs ys"
proof (induction xs)
  case Nil
  show ?case by simp
next
  case (Cons x xs)
  from Cons.prems[of x] obtain y where "P x y" by auto
  moreover from Cons.IH Cons.prems obtain ys where "list_all2 P xs ys" by auto
  ultimately have "list_all2 P (x # xs) (y # ys)" by simp
  then show ?case by blast
qed

lemma plan_inv_buildTree:
  assumes inv: "plan_inv n S"
  shows "1 \<le> k \<Longrightarrow> k \<le> n \<Longrightarrow> \<exists>t. buildTree (Suc (n - k)) (tasks S) (toString k) = Some (Inr t)"
proof (induction "n - k" arbitrary: k rule: less_induct)
  case less
  from inv have ids: "ids_inv n S" by (simp add: plan_inv_def)
  from ids_inv_lookup[OF ids less.prems] obtain task where
    task: "map_of (tasks S) (toString k) = Some task" by blast
  have "\<exists>y. buildTree (n - k) (tasks S) c = Some (Inr y)" if c: "c \<in> set (t_subtasks task)" for c
  proof -
    from inv task c obtain j where j: "c = toString j" "k < j"
      unfolding plan_inv_def by blast
    from ids task c have "c \<in> fst ` set (tasks S)" unfolding ids_inv_def by blast
    with ids_inv_keys[OF ids] j(1) obtain j' where "toString j = toString j'" "j' \<in> {1..n}" by auto
    with toString_inj[of j j'] have r: "1 \<le> j" "j \<le> n" by simp_all
    with j(2) have "n - j < n - k" by simp
    from less.hyps[OF this r] obtain y where
      "buildTree (Suc (n - j)) (tasks S) (toString j) = Some (Inr y)" by blast
    moreover from j(2) r have "Suc (n - j) \<le> n - k" by simp
    ultimately have "buildTree (n - k) (tasks S) c = Some (Inr y)"
      unfolding j(1) by (rule buildTree_mono[rotated])
    then show ?thesis by blast
  qed
  from list_all2_exists[of "t_subtasks task" "\<lambda>x y. buildTree (n - k) (tasks S) x = Some (Inr y)", OF this]
  obtain kids where "list_all2 (\<lambda>x y. buildTree (n - k) (tasks S) x = Some (Inr y)) (t_subtasks task) kids"
    by blast
  with task show ?case unfolding buildTree_Suc_Inr by blast
qed

lemma built_exports:
  assumes "built S"
  shows "\<exists>t. getPlanState (length (tasks S)) S = Some (Inr (TreeState t))"
proof -
  let ?n = "length (tasks S)"
  from built_plan_inv[OF assms] have inv: "plan_inv ?n S" .
  then have n: "0 < ?n" and root: "rootTaskId S = Some (toString 1)" by (simp_all add: plan_inv_def)
  from plan_inv_buildTree[OF inv, of 1] n obtain t where
    "buildTree (Suc (?n - 1)) (tasks S) (toString 1) = Some (Inr t)" by auto
  with n have "buildTree ?n (tasks S) (toString 1) = Some (Inr t)" by simp
  with root show ?thesis by (simp add: getPlanState_def)
qed


subsection \<open>The round trip\<close>

text \<open>
  The tree \<open>getPlanState\<close> returned is accepted by \<open>restoreState\<close> on a fresh store,
  and the store restored from it exports the same tree.
\<close>

lemma exported_tree_roundtrip:
  assumes "reachable S" and "getPlanState fuel S = Some (Inr (TreeState t))"
  shows "\<exists>msg S'. restoreState (Some (TreeState t)) new_TaskOrchestrator = Inr (msg, S') \<and>
           getPlanState (height t) S' = Some (Inr (TreeState t))"
proof -
  from assms(2) have root: "truthy (rootTaskId S)"
    and b: "buildTree fuel (tasks S) (the (rootTaskId S)) = Some (Inr t)"
    by (auto simp: getPlanState_def split: if_splits option.splits sum.splits)
  from assms(1) have inv: "store_inv (tasks S)" by (rule reachable_store_inv)
  then have keyid: "\<forall>k t. map_of (tasks S) k = Some t \<longrightarrow> t_id t = k"
    by (simp add: store_inv_def)
  from buildTree_nodes[OF keyid b] have "n_id t = the (rootTaskId S)" by simp
  with root have i: "n_id t \<noteq> []" by (cases "rootTaskId S") auto
  from inv b have u: "unfolding_of (nodes t)" by (rule buildTree_unfolding)
  define S' where "S' = restoreTask t None (new_TaskOrchestrator\<lparr>tasks := [], rootTaskId := None\<rparr>)"
  from restoreTask_root[OF u i, of new_TaskOrchestrator]
  have r: "rootTaskId S' = Some (n_id t)"
    and rep: "\<forall>b \<in> set (nodes t). \<exists>task. map_of (tasks S') (n_id b) = Some task \<and> represents task b"
    unfolding S'_def by auto
  from buildTree_represented[OF rep, of t]
  have "buildTree (height t) (tasks S') (n_id t) = Some (Inr t)" by simp
  with r i have "getPlanState (height t) S' = Some (Inr (TreeState t))"
    by (simp add: getPlanState_def)
  moreover have "\<exists>msg. restoreState (Some (TreeState t)) new_TaskOrchestrator = Inr (msg, S')"
    by (simp add: restoreState_def S'_def Let_def)
  ultimately show ?thesis by blast
qed

lemma example_plan_reachable: "reachable example_plan"
proof -
  have 1: "reachable (snd (createPlan ''Build X'' new_TaskOrchestrator))"
    by (intro reachable.intros)
  have 2: "addTask ''Step A'' None None (snd (createPlan ''Build X'' new_TaskOrchestrator)) =
      Inr (''Added task 2: '' @ [CHR 0x22] @ ''Step A'' @ [CHR 0x22] @ '' to parent 1'',
        \<lparr>tasks = [(''1'', \<lparr>t_id = ''1'', t_description = ''Build X'', t_status = ''pending'',
                       t_parentId = None, t_notes = None, t_result = None, t_subtasks = [''2'']\<rparr>),
               (''2'', \<lparr>t_id = ''2'', t_description = ''Step A'', t_status = ''pending'',
                       t_parentId = Some ''1'', t_notes = None, t_result = None,
                       t_subtasks = []\<rparr>)],
      rootTaskId = Some ''1''\<rparr>)"
    by (simp add: createPlan_def addTask_def toString.simps digit_def Let_def)
  have 3: "updateTask ''2'' \<lparr>u_status = Some ''completed'', u_description = None, u_notes = None,
                     u_result = Some ''done''\<rparr>
        \<lparr>tasks = [(''1'', \<lparr>t_id = ''1'', t_description = ''Build X'', t_status = ''pending'',
                       t_parentId = None, t_notes = None, t_result = None, t_subtasks = [''2'']\<rparr>),
               (''2'', \<lparr>t_id = ''2'', t_description = ''Step A'', t_status = ''pending'',
                       t_parentId = Some ''1'', t_notes = None, t_result = None,
                       t_subtasks = []\<rparr>)],
      rootTaskId = Some ''1''\<rparr> = Inr (''Updated task 2. New status: completed'', example_plan)"
    by (simp add: updateTask_def example_plan_def Let_def)
  from reachable_updateTask[OF reachable_addTask[OF 1 2] 3] show ?thesis .
qed

lemma example_plan_is_built: "built example_plan"
proof -
  have 1: "built (snd (createPlan ''Build X'' new_TaskOrchestrator))"
    by (rule built_createPlan)
  have 2: "addTask ''Step A'' None None (snd (createPlan ''Build X'' new_TaskOrchestrator)) =
      Inr (''Added task 2: '' @ [CHR 0x22] @ ''Step A'' @ [CHR 0x22] @ '' to parent 1'',
        \<lparr>tasks = [(''1'', \<lparr>t_id = ''1'', t_description = ''Build X'', t_status = ''pending'',
                       t_parentId = None, t_notes = None, t_result = None, t_subtasks = [''2'']\<rparr>),
               (''2'', \<lparr>t_id = ''2'', t_description = ''Step A'', t_status = ''pending'',
                       t_parentId = Some ''1'', t_notes = None, t_result = None,
                       t_subtasks = []\<rparr>)],
      rootTaskId = Some ''1''\<rparr>)"
    by (simp add: createPlan_def addTask_def toString.simps digit_def Let_def)
  have 3: "updateTask ''2'' \<lparr>u_status = Some ''completed'', u_description = None, u_notes = None,
                     u_result = Some ''done''\<rparr>
        \<lparr>tasks = [(''1'', \<lparr>t_id = ''1'', t_description = ''Build X'', t_status = ''pending'',
                       t_parentId = None, t_notes = None, t_result = None, t_subtasks = [''2'']\<rparr>),
               (''2'', \<lparr>t_id = ''2'', t_description = ''Step A'', t_status = ''pending'',
                       t_parentId = Some ''1'', t_notes = None, t_result = None,
                       t_subtasks = []\<rparr>)],
      rootTaskId = Some ''1''\<rparr> = Inr (''Updated task 2. New status: completed'', example_plan)"
    by (simp add: updateTask_def example_plan_def Let_def)
  from built_updateTask[OF built_addTask[OF 1 2] 3] show ?thesis .
qed

lemma buildTree_self_loop:
  "map_of m k = Some task \<Longrightarrow> t_subtasks task = [k] \<Longrightarrow> buildTree fuel m k = None"
  by (induction fuel) simp_all

text \<open>
  C1, as stated, fails for a store with an active plan on which \<open>getPlanState\<close> does not
  return. \<open>restoreState\<close> on a fresh store accepts the snapshot whose root and child
  both have the id \<open>1\<close>: the child's task replaces the root's under the key \<open>1\<close> and is
  then pushed onto its own \<open>subtasks\<close>. The store has an active plan (the root id is
  \<open>1\<close>), and \<open>getPlanState\<close> on it recurses from task \<open>1\<close> into task \<open>1\<close> without end:
  there is no snapshot to feed to \<open>restoreState\<close>.
\<close>

theorem getPlanState_after_repeated_id_never_returns:
  "restoreState (Some (TreeState repeated_id_snapshot)) new_TaskOrchestrator =
     Inr (''State restored successfully. Plan has 1 task(s).'',
          \<lparr>tasks = [(''1'', \<lparr>t_id = ''1'', t_description = ''step'', t_status = ''pending'',
                            t_parentId = Some ''1'', t_notes = None, t_result = None,
                            t_subtasks = [''1'']\<rparr>)],
            rootTaskId = Some ''1''\<rparr>) \<and>
   truthy (rootTaskId
          \<lparr>tasks = [(''1'', \<lparr>t_id = ''1'', t_description = ''step'', t_status = ''pending'',
                            t_parentId = Some ''1'', t_notes = None, t_result = None,
                            t_subtasks = [''1'']\<rparr>)],
            rootTaskId = Some ''1''\<rparr>) \<and>
   (\<forall>fuel. getPlanState fuel
          \<lparr>tasks = [(''1'', \<lparr>t_id = ''1'', t_description = ''step'', t_status = ''pending'',
                            t_parentId = Some ''1'', t_notes = None, t_result = None,
                            t_subtasks = [''1'']\<rparr>)],
            rootTaskId = Some ''1''\<rparr> = None)"
proof (intro conjI allI)
  show "restoreState (Some (TreeState repeated_id_snapshot)) new_TaskOrchestrator =
     Inr (''State restored successfully. Plan has 1 task(s).'',
          \<lparr>tasks = [(''1'', \<lparr>t_id = ''1'', t_description = ''step'', t_status = ''pending'',
                            t_parentId = Some ''1'', t_notes = None, t_result = None,
                            t_subtasks = [''1'']\<rparr>)],
            rootTaskId = Some ''1''\<rparr>)"
    by (simp add: restoreState_def repeated_id_snapshot_def new_TaskOrchestrator_def Let_def
        toString.simps digit_def)
  show "truthy (rootTaskId
          \<lparr>tasks = [(''1'', \<lparr>t_id = ''1'', t_description = ''step'', t_status = ''pending'',
                            t_parentId = Some ''1'', t_notes = None, t_result = None,
                            t_subtasks = [''1'']\<rparr>)],
            rootTaskId = Some ''1''\<rparr>)"
    by simp
  fix fuel
  have "buildTree fuel [(''1'', \<lparr>t_id = ''1'', t_description = ''step'', t_status = ''pending'',
                            t_parentId = Some ''1'', t_notes = None, t_result = None,
                            t_subtasks = [''1'']\<rparr>)] ''1'' = None"
    by (rule buildTree_self_loop[where task = "\<lparr>t_id = ''1'', t_description = ''step'', t_status = ''pending'',
                            t_parentId = Some ''1'', t_notes = None, t_result = None,
                            t_subtasks = [''1'']\<rparr>"]) simp_all
  then show "getPlanState fuel
          \<lparr>tasks = [(''1'', \<lparr>t_id = ''1'', t_description = ''step'', t_status = ''pending'',
                            t_parentId = Some ''1'', t_notes = None, t_result = None,
                            t_subtasks = [''1'']\<rparr>)],
            rootTaskId = Some ''1''\<rparr> = None"
    by (simp add: getPlanState_def)
qed

text \<open>
  C1, amended. For every store built by \<open>createPlan\<close>, \<open>addTask\<close> and \<open>updateTask\<close>
  alone, \<open>getPlanState\<close> returns the tree of the plan (with fuel the number of tasks),
  \<open>restoreState\<close> on a fresh store accepts that tree, and \<open>getPlanState\<close> on the
  restored store returns (with fuel the height of the tree) the same tree: the same ids,
  descriptions, statuses, notes, results and children in the same order at every node.
  The round trip also holds for every store the orchestrator can be in, restored ones
  included, on which \<open>getPlanState\<close> returns a tree.
\<close>

theorem getPlanState_restoreState_roundtrip:
  "(built S \<longrightarrow>
      (\<exists>t msg S'. getPlanState (length (tasks S)) S = Some (Inr (TreeState t)) \<and>
         restoreState (Some (TreeState t)) new_TaskOrchestrator = Inr (msg, S') \<and>
         getPlanState (height t) S' = Some (Inr (TreeState t)))) \<and>
   (reachable S \<and> getPlanState fuel S = Some (Inr (TreeState t)) \<longrightarrow>
      (\<exists>msg S'. restoreState (Some (TreeState t)) new_TaskOrchestrator = Inr (msg, S') \<and>
         getPlanState (height t) S' = Some (Inr (TreeState t))))"
proof (intro conjI impI)
  assume b: "built S"
  from built_exports[OF b] obtain t0 where
    e: "getPlanState (length (tasks S)) S = Some (Inr (TreeState t0))" by blast
  from exported_tree_roundtrip[OF built_reachable[OF b] e] e
  show "\<exists>t msg S'. getPlanState (length (tasks S)) S = Some (Inr (TreeState t)) \<and>
         restoreState (Some (TreeState t)) new_TaskOrchestrator = Inr (msg, S') \<and>
         getPlanState (height t) S' = Some (Inr (TreeState t))"
    by blast
next
  assume "reachable S \<and> getPlanState fuel S = Some (Inr (TreeState t))"
  then show "\<exists>msg S'. restoreState (Some (TreeState t)) new_TaskOrchestrator = Inr (msg, S') \<and>
         getPlanState (height t) S' = Some (Inr (TreeState t))"
    by (auto intro: exported_tree_roundtrip)
qed

text \<open>
  The plan of the scenario is built by the three calls, exports its tree, and the tree
  round-trips.
\<close>

theorem getPlanState_restoreState_roundtrip_witness:
  "built example_plan \<and>
   getPlanState (length (tasks example_plan)) example_plan = Some (Inr (TreeState example_tree)) \<and>
   reachable example_plan \<and>
   getPlanState 2 example_plan = Some (Inr (TreeState example_tree)) \<and>
   (\<exists>msg S'. restoreState (Some (TreeState example_tree)) new_TaskOrchestrator = Inr (msg, S') \<and>
      getPlanState (height example_tree) S' = Some (Inr (TreeState example_tree)))"
proof -
  have g: "getPlanState 2 example_plan = Some (Inr (TreeState example_tree))"
    by (simp add: getPlanState_def example_plan_def example_tree_def numeral_2_eq_2)
  have l: "length (tasks example_plan) = 2" by (simp add: example_plan_def)
  note r = getPlanState_restoreState_roundtrip[of example_plan 2 example_tree]
  from r example_plan_is_built obtain t0 msg S' where
    "getPlanState (length (tasks example_plan)) example_plan = Some (Inr (TreeState t0))"
    "restoreState (Some (TreeState t0)) new_TaskOrchestrator = Inr (msg, S')"
    "getPlanState (height t0) S' = Some (Inr (TreeState t0))"
    by blast
  with g l have a: "\<exists>msg S'. restoreState (Some (TreeState example_tree)) new_TaskOrchestrator = Inr (msg, S') \<and>
      getPlanState (height example_tree) S' = Some (Inr (TreeState example_tree))"
    by auto
  from a g l example_plan_is_built example_plan_reachable show ?thesis by simp
qed

section \<open>Isolation of a checkpoint from the live plan\<close>

lemma keeps_refl [simp]: "keeps h h"
  by (simp add: keeps_def)

lemma keeps_trans: "keeps h1 h2 \<Longrightarrow> keeps h2 h3 \<Longrightarrow> keeps h1 h3"
  unfolding keeps_def by (metis le_trans less_le_trans)

lemma keeps_append [simp]: "keeps h (h @ ext)"
  by (simp add: keeps_def nth_append)

lemma keeps_update: "deref h r = Some (TaskObj t) \<Longrightarrow> keeps h (h[r := ob])"
  by (auto simp: keeps_def deref_def nth_list_update split: if_splits)

lemma frames_refl [simp]: "frames w w"
  by (simp add: frames_def)

lemma frames_trans: "frames w1 w2 \<Longrightarrow> frames w2 w3 \<Longrightarrow> frames w1 w3"
  unfolding frames_def by (auto intro: keeps_trans)

lemma deref_keeps:
  "keeps h h' \<Longrightarrow> deref h r = Some ob \<Longrightarrow> \<forall>t. ob \<noteq> TaskObj t \<Longrightarrow> deref h' r = Some ob"
  by (auto simp: keeps_def deref_def split: if_splits)

lemma those_map_Some:
  "those (map f xs) = Some ys \<longleftrightarrow> list_all2 (\<lambda>x y. f x = Some y) xs ys"
proof (induction xs arbitrary: ys)
  case Nil
  show ?case by auto
next
  case (Cons x xs)
  show ?case
    by (cases ys; cases "f x"; cases "those (map f xs)") (auto simp: Cons.IH[symmetric])
qed

lemma read_node_Suc:
  "read_node (Suc n) h r = Some t \<longleftrightarrow>
     (\<exists>i d s nt res subs kids. deref h r = Some (NodeObj i d s nt res subs) \<and>
        list_all2 (\<lambda>x y. read_node n h x = Some y) subs kids \<and> t = TaskNode i d s nt res kids)"
  by (auto simp: those_map_Some[symmetric] split: option.splits obj.splits)

lemma read_node_keeps:
  "keeps h h' \<Longrightarrow> read_node n h r = Some t \<Longrightarrow> read_node n h' r = Some t"
proof (induction n arbitrary: r t)
  case 0
  then show ?case by simp
next
  case (Suc n)
  from Suc.prems(2) obtain i d s nt res subs kids where
    t: "deref h r = Some (NodeObj i d s nt res subs)"
       "list_all2 (\<lambda>x y. read_node n h x = Some y) subs kids" "t = TaskNode i d s nt res kids"
    unfolding read_node_Suc by blast
  from deref_keeps[OF Suc.prems(1) t(1)] have 1: "deref h' r = Some (NodeObj i d s nt res subs)"
    by simp
  from t(2) have 2: "list_all2 (\<lambda>x y. read_node n h' x = Some y) subs kids"
    by (rule list_all2_mono) (rule Suc.IH[OF Suc.prems(1)])
  from 1 2 t(3) show ?case unfolding read_node_Suc by blast
qed

lemma read_node_mono_Suc: "read_node n h r = Some t \<Longrightarrow> read_node (Suc n) h r = Some t"
proof (induction n arbitrary: r t)
  case 0
  then show ?case by simp
next
  case (Suc n)
  from Suc.prems obtain i d s nt res subs kids where
    t: "deref h r = Some (NodeObj i d s nt res subs)"
       "list_all2 (\<lambda>x y. read_node n h x = Some y) subs kids" "t = TaskNode i d s nt res kids"
    unfolding read_node_Suc by blast
  from t(2) have "list_all2 (\<lambda>x y. read_node (Suc n) h x = Some y) subs kids"
    by (rule list_all2_mono) (rule Suc.IH)
  with t(1,3) show ?case unfolding read_node_Suc[of "Suc n"] by blast
qed

lemma read_node_mono: "n \<le> n' \<Longrightarrow> read_node n h r = Some t \<Longrightarrow> read_node n' h r = Some t"
  by (induction rule: dec_induct) (auto intro: read_node_mono_Suc simp del: read_node.simps)

lemma read_node_height: "read_node n h r = Some t \<Longrightarrow> height t \<le> n"
proof (induction n arbitrary: r t)
  case 0
  then show ?case by simp
next
  case (Suc n)
  from Suc.prems obtain i d s nt res subs kids where
    t: "list_all2 (\<lambda>x y. read_node n h x = Some y) subs kids" "t = TaskNode i d s nt res kids"
    unfolding read_node_Suc by blast
  have "height c \<le> n" if "c \<in> set kids" for c
    using t(1) that Suc.IH by (auto simp: list_all2_conv_all_nth in_set_conv_nth)
  then have "foldr max (map height kids) 0 \<le> n"
    by (induction kids) auto
  with t(2) show ?case by simp
qed

lemma JSON_stringify_keeps:
  "keeps h h' \<Longrightarrow> JSON_stringify n h r = Some v \<Longrightarrow> JSON_stringify n h' r = Some v"
proof -
  assume k: "keeps h h'" and s: "JSON_stringify n h r = Some v"
  from s obtain ob where ob: "deref h r = Some ob" "\<forall>t. ob \<noteq> TaskObj t"
    by (auto simp: JSON_stringify_def split: option.splits obj.splits)
  from deref_keeps[OF k ob] have d: "deref h' r = Some ob" .
  show ?thesis
  proof (cases ob)
    case (TaskObj t)
    with ob show ?thesis by simp
  next
    case (NodeObj i d' s' nt res subs)
    with s ob obtain t where "read_node n h r = Some t" "v = TreeState t"
      by (auto simp: JSON_stringify_def)
    with read_node_keeps[OF k this(1)] d NodeObj show ?thesis
      by (simp add: JSON_stringify_def)
  next
    case ErrorObj
    with s ob d show ?thesis by (simp add: JSON_stringify_def)
  qed
qed

lemma new_obj_frames: "new_obj ob w = (r, w') \<Longrightarrow> frames w w'"
  by (auto simp: new_obj_def frames_def)

lemma new_obj_fields:
  "new_obj ob w = (r, w') \<Longrightarrow>
     r = length (heap w) \<and> heap w' = heap w @ [ob] \<and> tasks_h w' = tasks_h w \<and>
     rootTaskId_h w' = rootTaskId_h w \<and> checkpoints_h w' = checkpoints_h w \<and> nextId_h w' = nextId_h w"
  by (auto simp: new_obj_def)

lemma createPlan_h_frames: "frames w (snd (createPlan_h goal w))"
  by (simp add: createPlan_h_def new_obj_def frames_def Let_def)

lemma deref_append: "deref h r = Some ob \<Longrightarrow> deref (h @ ext) r = Some ob"
  by (auto simp: deref_def nth_append split: if_splits)

lemma addTask_h_frames: "frames w (snd (addTask_h d p nt w))"
proof -
  have "keeps h ((h @ [x])[pr := y])" if "deref h pr = Some (TaskObj t)" for h pr x y t
    using keeps_trans[OF keeps_append[of h "[x]"] keeps_update[OF deref_append[OF that], of "[x]" y]] .
  then show ?thesis
    by (auto simp: addTask_h_def new_obj_def frames_def Let_def split: option.splits obj.splits)
qed

lemma updateTask_h_frames: "frames w (snd (updateTask_h i u w))"
  by (auto simp: updateTask_h_def frames_def Let_def keeps_update split: option.splits obj.splits)

lemma attach_h_frames: "attach_h i p w = Inr w' \<Longrightarrow> frames w w'"
  by (auto simp: attach_h_def frames_def keeps_update split: if_splits option.splits obj.splits)

lemma forEach_h_frames:
  assumes "\<And>x w res w'. f x w = Some (res, w') \<Longrightarrow> frames w w'"
  shows "forEach_h f xs w = Some (res, w') \<Longrightarrow> frames w w'"
proof (induction xs arbitrary: w)
  case Nil
  then show ?case by simp
next
  case (Cons x xs)
  from Cons.prems obtain r1 w1 where 1: "f x w = Some (r1, w1)"
    by (auto split: option.splits)
  show ?case
  proof (cases r1)
    case (Inl e)
    with Cons.prems 1 assms[OF 1] show ?thesis by simp
  next
    case (Inr u)
    with Cons.prems 1 have "forEach_h f xs w1 = Some (res, w')" by simp
    from frames_trans[OF assms[OF 1] Cons.IH[OF this]] show ?thesis .
  qed
qed

lemma collect_h_frames:
  assumes "\<And>x w res w'. f x w = Some (res, w') \<Longrightarrow> frames w w'"
  shows "collect_h f xs w = Some (res, w') \<Longrightarrow> frames w w'"
proof (induction xs arbitrary: w res)
  case Nil
  then show ?case by simp
next
  case (Cons x xs)
  from Cons.prems obtain r1 w1 where 1: "f x w = Some (r1, w1)"
    by (auto split: option.splits)
  show ?case
  proof (cases r1)
    case (Inl e)
    with Cons.prems 1 assms[OF 1] show ?thesis by simp
  next
    case (Inr y)
    with Cons.prems 1 obtain r2 where "collect_h f xs w1 = Some (r2, w')"
      by (auto split: option.splits sum.splits)
    from frames_trans[OF assms[OF 1] Cons.IH[OF this]] show ?thesis .
  qed
qed

lemma restoreTask_h_frames: "restoreTask_h n x w = Some (res, w') \<Longrightarrow> frames w w'"
proof (induction n arbitrary: x w res w')
  case 0
  then show ?case by (simp split: prod.splits)
next
  case (Suc n)
  obtain taskData parentId where x: "x = (taskData, parentId)" by (cases x)
  show ?case
  proof (cases "deref (heap w) taskData")
    case None
    with Suc.prems x show ?thesis by simp
  next
    case (Some ob)
    show ?thesis
    proof (cases ob)
      case (TaskObj t)
      with Suc.prems x Some show ?thesis by simp
    next
      case ErrorObj
      with Suc.prems x Some show ?thesis by simp
    next
      case (NodeObj i d s nt rs subs)
      let ?task = "\<lparr>t_id = i, t_description = d, t_status = s, t_parentId = parentId,
                       t_notes = nt, t_result = rs, t_subtasks = []\<rparr>"
      define w2 where "w2 = (snd (new_obj (TaskObj ?task) w))\<lparr>tasks_h :=
           AList.update i (fst (new_obj (TaskObj ?task) w)) (tasks_h (snd (new_obj (TaskObj ?task) w)))\<rparr>"
      have f2: "frames w w2"
        by (simp add: w2_def new_obj_def frames_def)
      show ?thesis
      proof (cases "attach_h i parentId w2")
        case (Inl e)
        with Suc.prems x Some NodeObj f2 show ?thesis
          by (simp add: w2_def Let_def split: prod.splits)
      next
        case (Inr w3)
        with Suc.prems x Some NodeObj
        have "forEach_h (restoreTask_h n) (map (\<lambda>subtaskData. (subtaskData, Some i)) subs) w3 = Some (res, w')"
          by (simp add: w2_def Let_def split: prod.splits)
        then have "frames w3 w'"
          by (rule forEach_h_frames[rotated]) (rule Suc.IH)
        with frames_trans[OF f2 attach_h_frames[OF Inr]] show ?thesis
          by (rule frames_trans)
      qed
    qed
  qed
qed

lemma restoreState_h_frames: "restoreState_h n state w = Some (res, w') \<Longrightarrow> frames w w'"
proof -
  assume a: "restoreState_h n state w = Some (res, w')"
  have c: "frames w (w\<lparr>tasks_h := [], rootTaskId_h := None\<rparr>)"
    by (simp add: frames_def)
  from a show ?thesis
    by (auto simp: restoreState_h_def split: option.splits obj.splits sum.splits
        intro: frames_trans[OF c restoreTask_h_frames])
qed

lemma mutate_frames: "mutate n m w = Some w' \<Longrightarrow> frames w w'"
proof (cases m)
  case (CreatePlan goal)
  assume "mutate n m w = Some w'"
  with CreatePlan createPlan_h_frames[of w goal] show ?thesis by auto
next
  case (AddTask d p nt)
  assume "mutate n m w = Some w'"
  with AddTask addTask_h_frames[of w d p nt] show ?thesis by auto
next
  case (UpdateTask i u)
  assume "mutate n m w = Some w'"
  with UpdateTask updateTask_h_frames[of w i u] show ?thesis by auto
next
  case (RestoreState state)
  assume "mutate n m w = Some w'"
  with RestoreState show ?thesis by (auto intro: restoreState_h_frames)
qed

lemma mutate_all_frames: "mutate_all n ms w = Some w' \<Longrightarrow> frames w w'"
proof (induction ms arbitrary: w)
  case Nil
  then show ?case by simp
next
  case (Cons m ms)
  from Cons.prems obtain w1 where 1: "mutate n m w = Some w1" "mutate_all n ms w1 = Some w'"
    by (auto split: option.splits)
  from frames_trans[OF mutate_frames[OF 1(1)] Cons.IH[OF 1(2)]] show ?case .
qed

lemma buildTree_h_frames: "buildTree_h n k w = Some (res, w') \<Longrightarrow> frames w w'"
proof (induction n arbitrary: k w res w')
  case 0
  then show ?case by simp
next
  case (Suc n)
  have c: "frames w w1" if "collect_h (buildTree_h n) xs w = Some (r1, w1)" for xs r1 w1
    using that by (rule collect_h_frames[rotated]) (rule Suc.IH)
  from Suc.prems show ?case
    by (auto simp: Let_def split: option.splits obj.splits sum.splits prod.splits
        dest!: c new_obj_frames intro: frames_trans)
qed

lemma getPlanState_h_frames: "getPlanState_h n w = Some (res, w') \<Longrightarrow> frames w w'"
  by (auto simp: getPlanState_h_def split: if_splits prod.splits
      dest: buildTree_h_frames new_obj_frames)

lemma deref_new: "deref (h @ [ob]) (length h) = Some ob"
  by (simp add: deref_def)

lemma parse_node_reads:
  "parse_node t w = (r, w') \<Longrightarrow>
     (\<exists>ext. heap w' = heap w @ ext) \<and> checkpoints_h w' = checkpoints_h w \<and>
     read_node (height t) (heap w') r = Some t"
  "parse_nodes cs w = (rs, w') \<Longrightarrow>
     (\<exists>ext. heap w' = heap w @ ext) \<and> checkpoints_h w' = checkpoints_h w \<and>
     list_all2 (\<lambda>r c. read_node (height c) (heap w') r = Some c) rs cs"
proof (induction t w and cs w arbitrary: r w' and rs w' rule: parse_node_parse_nodes.induct)
  case (1 i d s nt res subs w)
  obtain kids w1 where k: "parse_nodes subs w = (kids, w1)" by (cases "parse_nodes subs w")
  from "1.IH"[OF k] obtain ext where
    ih: "heap w1 = heap w @ ext" "checkpoints_h w1 = checkpoints_h w"
        "list_all2 (\<lambda>r c. read_node (height c) (heap w1) r = Some c) kids subs"
    by blast
  from "1.prems" k have r: "r = length (heap w1)"
    and w': "heap w' = heap w1 @ [NodeObj i d s nt res kids]" "checkpoints_h w' = checkpoints_h w1"
    by (auto simp: new_obj_def)
  let ?H = "foldr max (map height subs) 0"
  have kids: "list_all2 (\<lambda>x y. read_node ?H (heap w') x = Some y) kids subs"
    unfolding list_all2_conv_all_nth
  proof (intro conjI allI impI)
    show "length kids = length subs" using ih(3) by (rule list_all2_lengthD)
  next
    fix j assume j: "j < length kids"
    with ih(3) have len: "j < length subs" by (simp add: list_all2_lengthD)
    from ih(3) j have "read_node (height (subs ! j)) (heap w1) (kids ! j) = Some (subs ! j)"
      by (simp add: list_all2_conv_all_nth)
    then have "read_node (height (subs ! j)) (heap w') (kids ! j) = Some (subs ! j)"
      unfolding w'(1) by (rule read_node_keeps[rotated]) simp
    moreover from len have "height (subs ! j) \<le> ?H"
      by (intro child_height) simp
    ultimately show "read_node ?H (heap w') (kids ! j) = Some (subs ! j)"
      by (rule read_node_mono[rotated])
  qed
  have d: "deref (heap w') r = Some (NodeObj i d s nt res kids)"
    unfolding w'(1) r by (rule deref_new)
  from d kids have "read_node (Suc ?H) (heap w') r = Some (TaskNode i d s nt res subs)"
    unfolding read_node_Suc by blast
  moreover have "heap w' = heap w @ (ext @ [NodeObj i d s nt res kids])"
    using w'(1) ih(1) by simp
  ultimately show ?case
    using w'(2) ih(2) by (auto simp del: read_node.simps)
next
  case (2 w)
  then show ?case by simp
next
  case (3 c cs w)
  obtain k w1 where k: "parse_node c w = (k, w1)" by (cases "parse_node c w")
  obtain ks w2 where ks: "parse_nodes cs w1 = (ks, w2)" by (cases "parse_nodes cs w1")
  from "3.IH"(1)[OF k] obtain ext1 where
    1: "heap w1 = heap w @ ext1" "checkpoints_h w1 = checkpoints_h w"
       "read_node (height c) (heap w1) k = Some c"
    by blast
  from "3.IH"(2)[OF k[symmetric] refl ks] obtain ext2 where
    2: "heap w2 = heap w1 @ ext2" "checkpoints_h w2 = checkpoints_h w1"
       "list_all2 (\<lambda>r c. read_node (height c) (heap w2) r = Some c) ks cs"
    by blast
  from 1(3) have "read_node (height c) (heap w2) k = Some c"
    unfolding 2(1) by (rule read_node_keeps[rotated]) simp
  with "3.prems" k ks 1 2 show ?case by auto
qed

lemma JSON_parse_reads:
  assumes s: "JSON_stringify fuel h0 r0 = Some v" and p: "JSON_parse v w = (r, w')"
  shows "frames w w' \<and> JSON_stringify fuel (heap w') r = Some v"
proof (cases v)
  case ErrorState
  with p show ?thesis
    by (auto simp: new_obj_def frames_def JSON_stringify_def deref_def)
next
  case (TreeState t)
  with p have pn: "parse_node t w = (r, w')" by simp
  from parse_node_reads(1)[OF pn] obtain ext where
    1: "heap w' = heap w @ ext" "checkpoints_h w' = checkpoints_h w"
       "read_node (height t) (heap w') r = Some t"
    by blast
  from s TreeState have "read_node fuel h0 r0 = Some t"
    by (auto simp: JSON_stringify_def split: option.splits obj.splits)
  then have "height t \<le> fuel" by (rule read_node_height)
  then have rd: "read_node fuel (heap w') r = Some t"
    using 1(3) by (rule read_node_mono)
  obtain n where "height t = Suc n" by (cases t) simp
  with 1(3) have "read_node (Suc n) (heap w') r = Some t" by simp
  then obtain i d s' nt res subs where "deref (heap w') r = Some (NodeObj i d s' nt res subs)"
    unfolding read_node_Suc by blast
  with rd TreeState have "JSON_stringify fuel (heap w') r = Some v"
    by (simp add: JSON_stringify_def)
  moreover from 1 have "frames w w'" by (simp add: frames_def)
  ultimately show ?thesis by simp
qed

lemma refs_of_above: "above L h \<Longrightarrow> L \<le> r \<Longrightarrow> \<forall>x \<in> set (refs_of n h r). L \<le> x"
proof (induction n arbitrary: r)
  case 0
  then show ?case by simp
next
  case (Suc n)
  show ?case
  proof (cases "deref h r")
    case None
    with Suc.prems show ?thesis by simp
  next
    case (Some ob)
    show ?thesis
    proof (cases ob)
      case (NodeObj i d s nt res subs)
      with Some have "r < length h" "h ! r = NodeObj i d s nt res subs"
        by (auto simp: deref_def split: if_splits)
      with Suc.prems have "\<forall>k \<in> set subs. L \<le> k"
        unfolding above_def by blast
      with Suc.IH[OF Suc.prems(1)] Some NodeObj Suc.prems(2) show ?thesis by auto
    qed (use Some Suc.prems in auto)
  qed
qed

lemma above_new:
  "above L h \<Longrightarrow> \<forall>k \<in> set kids. L \<le> k \<Longrightarrow> above L (h @ [NodeObj i d s nt res kids])"
  unfolding above_def by (auto simp: nth_append split: if_splits)

lemma parse_node_above:
  "parse_node t w = (r, w') \<Longrightarrow> above L (heap w) \<Longrightarrow> L \<le> length (heap w) \<Longrightarrow>
     above L (heap w') \<and> L \<le> r \<and> L \<le> length (heap w')"
  "parse_nodes cs w = (rs, w') \<Longrightarrow> above L (heap w) \<Longrightarrow> L \<le> length (heap w) \<Longrightarrow>
     above L (heap w') \<and> (\<forall>k \<in> set rs. L \<le> k) \<and> L \<le> length (heap w')"
proof (induction t w and cs w arbitrary: r w' and rs w' rule: parse_node_parse_nodes.induct)
  case (1 i d s nt res subs w)
  obtain kids w1 where k: "parse_nodes subs w = (kids, w1)" by (cases "parse_nodes subs w")
  from "1.IH"[OF k "1.prems"(2,3)] have ih: "above L (heap w1)" "\<forall>k \<in> set kids. L \<le> k"
    "L \<le> length (heap w1)"
    by auto
  from "1.prems"(1) k have "r = length (heap w1)" "heap w' = heap w1 @ [NodeObj i d s nt res kids]"
    by (auto simp: new_obj_def)
  with ih above_new[OF ih(1,2)] show ?case by simp
next
  case (2 w)
  then show ?case by simp
next
  case (3 c cs w)
  obtain k w1 where k: "parse_node c w = (k, w1)" by (cases "parse_node c w")
  obtain ks w2 where ks: "parse_nodes cs w1 = (ks, w2)" by (cases "parse_nodes cs w1")
  from "3.IH"(1)[OF k "3.prems"(2,3)] have 1: "above L (heap w1)" "L \<le> k" "L \<le> length (heap w1)"
    by auto
  from "3.IH"(2)[OF k[symmetric] refl ks 1(1,3)] have 2: "above L (heap w2)" "\<forall>k \<in> set ks. L \<le> k"
    "L \<le> length (heap w2)"
    by auto
  from "3.prems"(1) k ks 1 2 show ?case by auto
qed

lemma JSON_parse_fresh:
  assumes "JSON_parse v w = (r, w')"
  shows "\<forall>x \<in> set (refs_of n (heap w') r). length (heap w) \<le> x"
proof (cases v)
  case ErrorState
  with assms show ?thesis
    by (cases n) (auto simp: new_obj_def deref_def)
next
  case (TreeState t)
  with assms have p: "parse_node t w = (r, w')" by simp
  have "above (length (heap w)) (heap w)" by (simp add: above_def)
  from parse_node_above(1)[OF p this] have "above (length (heap w)) (heap w')" "length (heap w) \<le> r"
    by auto
  then show ?thesis by (rule refs_of_above)
qed

text \<open>
  C3. When \<open>createCheckpoint\<close> returns, it has appended one checkpoint with the id it
  returned. The state stored in it reads as the value \<open>v\<close> that the object returned by
  \<open>getPlanState\<close> reads as at that moment; every object of the stored state was
  allocated after \<open>getPlanState\<close> returned, so it is neither an object of the live plan
  nor of the returned tree. After any sequence of \<open>createPlan\<close>, \<open>addTask\<close>,
  \<open>updateTask\<close> and \<open>restoreState\<close> calls (with any arguments, the checkpoint's own state
  object included, returning or throwing), the checkpoint list is the same and the
  stored state still reads as \<open>v\<close>.
\<close>

theorem createCheckpoint_h_isolated:
  assumes c: "createCheckpoint_h fuel name description now w = Some (Inr cid, w1)"
    and m: "mutate_all fuel' ms w1 = Some w2"
  shows "\<exists>cp v r0 wg.
           checkpoints_h w1 = checkpoints_h w @ [cp] \<and> cph_id cp = cid \<and>
           getPlanState_h fuel (w\<lparr>nextId_h := nextId_h w + 1\<rparr>) = Some (Inr r0, wg) \<and>
           JSON_stringify fuel (heap wg) r0 = Some v \<and>
           JSON_stringify fuel (heap w1) (cph_state cp) = Some v \<and>
           (\<forall>x \<in> set (refs_of fuel (heap w1) (cph_state cp)). length (heap wg) \<le> x) \<and>
           checkpoints_h w2 = checkpoints_h w1 \<and>
           JSON_stringify fuel (heap w2) (cph_state cp) = Some v"
proof -
  let ?w = "w\<lparr>nextId_h := nextId_h w + 1\<rparr>"
  from c obtain r0 wg v where g: "getPlanState_h fuel ?w = Some (Inr r0, wg)"
    and s: "JSON_stringify fuel (heap wg) r0 = Some v"
    by (auto simp: createCheckpoint_h_def Let_def split: option.splits sum.splits prod.splits)
  obtain copy w3 where p: "JSON_parse v wg = (copy, w3)" by (cases "JSON_parse v wg")
  define cp where "cp = \<lparr>cph_id = ''cp_'' @ toString (nextId_h w), cph_name = name,
      cph_description = description, cph_state = copy, cph_timestamp = now\<rparr>"
  from c g s p have cid: "cid = ''cp_'' @ toString (nextId_h w)"
    and w1: "w1 = w3\<lparr>checkpoints_h := checkpoints_h w3 @ [cp]\<rparr>"
    by (auto simp: createCheckpoint_h_def Let_def cp_def)
  from getPlanState_h_frames[OF g] have fg: "checkpoints_h wg = checkpoints_h w"
    by (simp add: frames_def)
  from JSON_parse_reads[OF s p] have f3: "checkpoints_h w3 = checkpoints_h wg"
    and r3: "JSON_stringify fuel (heap w3) copy = Some v"
    by (auto simp: frames_def)
  from mutate_all_frames[OF m] have k: "keeps (heap w1) (heap w2)"
    and cps: "checkpoints_h w2 = checkpoints_h w1"
    by (auto simp: frames_def)
  from r3 have r1: "JSON_stringify fuel (heap w1) (cph_state cp) = Some v"
    by (simp add: w1 cp_def)
  from JSON_stringify_keeps[OF k r1] have r2: "JSON_stringify fuel (heap w2) (cph_state cp) = Some v" .
  from JSON_parse_fresh[OF p, of fuel]
  have fr: "\<forall>x \<in> set (refs_of fuel (heap w1) (cph_state cp)). length (heap wg) \<le> x"
    by (simp add: w1 cp_def)
  have "checkpoints_h w1 = checkpoints_h w @ [cp]"
    using w1 f3 fg by simp
  moreover have "cph_id cp = cid" by (simp add: cp_def cid)
  ultimately show ?thesis using g s r1 r2 fr cps by blast
qed

lemma deref_update_Task:
  "deref h r = Some (TaskObj t) \<Longrightarrow> \<exists>t'. deref (h[pr := TaskObj u]) r = Some (TaskObj t')"
  by (cases "r = pr") (auto simp: deref_def split: if_splits)

lemma typedD: "typed w \<Longrightarrow> map_of (tasks_h w) k = Some r \<Longrightarrow> \<exists>t. deref (heap w) r = Some (TaskObj t)"
  unfolding typed_def by blast

lemma typed_new_World: "typed new_World"
  by (simp add: typed_def new_World_def)

lemma typed_createPlan_h: "typed (snd (createPlan_h goal w))"
  by (simp add: typed_def createPlan_h_def new_obj_def Let_def deref_def)

lemma typed_addTask_h:
  assumes "typed w"
  shows "typed (snd (addTask_h d p nt w)) \<and> fst (addTask_h d p nt w) \<noteq> Inl TypeError"
proof (cases "truthy (rootTaskId_h w)")
  case False
  with assms show ?thesis by (simp add: addTask_h_def)
next
  case True
  define pk where "pk = (if truthy p then the p else the (rootTaskId_h w))"
  show ?thesis
  proof (cases "map_of (tasks_h w) pk")
    case None
    with True assms show ?thesis by (simp add: addTask_h_def pk_def[symmetric] Let_def)
  next
    case (Some pr)
    from typedD[OF assms Some] obtain parent where par: "deref (heap w) pr = Some (TaskObj parent)"
      by blast
    define newId where "newId = toString (length (tasks_h w) + 1)"
    define newTask where "newTask = \<lparr>t_id = newId, t_description = d, t_status = ''pending'',
        t_parentId = Some (t_id parent), t_notes = nt, t_result = None, t_subtasks = []\<rparr>"
    define w3 where "w3 = w\<lparr>heap := (heap w @ [TaskObj newTask])
           [pr := TaskObj (parent\<lparr>t_subtasks := t_subtasks parent @ [newId]\<rparr>)],
         tasks_h := AList.update newId (length (heap w)) (tasks_h w)\<rparr>"
    have r: "addTask_h d p nt w =
        (Inr (''Added task '' @ newId @ '': '' @ [CHR 0x22] @ d @ [CHR 0x22]
               @ '' to parent '' @ t_id parent), w3)"
      using True Some par
      by (simp add: addTask_h_def pk_def[symmetric] Let_def new_obj_def newId_def newTask_def w3_def)
    have "\<exists>t. deref (heap w3) r = Some (TaskObj t)" if "map_of (tasks_h w3) k = Some r" for k r
    proof (cases "k = newId")
      case True
      with that have "r = length (heap w)" by (simp add: w3_def update_conv')
      then have "deref (heap w @ [TaskObj newTask]) r = Some (TaskObj newTask)"
        by (simp add: deref_new)
      from deref_update_Task[OF this] show ?thesis by (simp add: w3_def)
    next
      case False
      with that have "map_of (tasks_h w) k = Some r" by (simp add: w3_def update_conv')
      from typedD[OF assms this] obtain t where "deref (heap w) r = Some (TaskObj t)" by blast
      then have "deref (heap w @ [TaskObj newTask]) r = Some (TaskObj t)" by (rule deref_append)
      from deref_update_Task[OF this] show ?thesis by (simp add: w3_def)
    qed
    then have "typed w3" unfolding typed_def by blast
    with r show ?thesis by simp
  qed
qed

lemma typed_updateTask_h:
  assumes "typed w"
  shows "typed (snd (updateTask_h i u w)) \<and> fst (updateTask_h i u w) \<noteq> Inl TypeError"
proof (cases "map_of (tasks_h w) i")
  case None
  with assms show ?thesis by (simp add: updateTask_h_def)
next
  case (Some tr)
  from typedD[OF assms Some] obtain task where t: "deref (heap w) tr = Some (TaskObj task)"
    by blast
  have "\<exists>t. deref ((heap w)[tr := TaskObj x]) r = Some (TaskObj t)"
    if "map_of (tasks_h w) k = Some r" for k r x
    using typedD[OF assms that] deref_update_Task by blast
  with Some t show ?thesis
    by (simp add: updateTask_h_def Let_def typed_def)
qed

lemma typed_attach_h:
  assumes "typed w"
  shows "\<exists>w'. attach_h i p w = Inr w' \<and> typed w'"
proof (cases "truthy p")
  case False
  with assms show ?thesis by (simp add: attach_h_def typed_def)
next
  case True
  show ?thesis
  proof (cases "map_of (tasks_h w) (the p)")
    case None
    with True assms show ?thesis by (simp add: attach_h_def)
  next
    case (Some pr)
    from typedD[OF assms Some] obtain parent where t: "deref (heap w) pr = Some (TaskObj parent)"
      by blast
    have "\<exists>t. deref ((heap w)[pr := TaskObj x]) r = Some (TaskObj t)"
      if "map_of (tasks_h w) k = Some r" for k r x
      using typedD[OF assms that] deref_update_Task by blast
    with True Some t show ?thesis
      by (simp add: attach_h_def typed_def)
  qed
qed

lemma typed_forEach_h:
  assumes "\<And>x w res w'. typed w \<Longrightarrow> f x w = Some (res, w') \<Longrightarrow> typed w'"
  shows "typed w \<Longrightarrow> forEach_h f xs w = Some (res, w') \<Longrightarrow> typed w'"
proof (induction xs arbitrary: w)
  case Nil
  then show ?case by simp
next
  case (Cons x xs)
  from Cons.prems(2) obtain r1 w1 where 1: "f x w = Some (r1, w1)"
    by (auto split: option.splits)
  from assms[OF Cons.prems(1) 1] have t1: "typed w1" .
  show ?case
  proof (cases r1)
    case (Inl e)
    with Cons.prems 1 t1 show ?thesis by simp
  next
    case (Inr u)
    with Cons.prems 1 have "forEach_h f xs w1 = Some (res, w')" by simp
    from Cons.IH[OF t1 this] show ?thesis .
  qed
qed

lemma typed_restoreTask_h:
  "typed w \<Longrightarrow> restoreTask_h n x w = Some (res, w') \<Longrightarrow> typed w'"
proof (induction n arbitrary: x w res w')
  case 0
  then show ?case by (simp split: prod.splits)
next
  case (Suc n)
  obtain taskData parentId where x: "x = (taskData, parentId)" by (cases x)
  show ?case
  proof (cases "deref (heap w) taskData")
    case None
    with Suc.prems x show ?thesis by simp
  next
    case (Some ob)
    show ?thesis
    proof (cases ob)
      case (TaskObj t)
      with Suc.prems x Some show ?thesis by simp
    next
      case ErrorObj
      with Suc.prems x Some show ?thesis by simp
    next
      case (NodeObj i d s nt rs subs)
      let ?task = "\<lparr>t_id = i, t_description = d, t_status = s, t_parentId = parentId,
                       t_notes = nt, t_result = rs, t_subtasks = []\<rparr>"
      define w2 where "w2 = (snd (new_obj (TaskObj ?task) w))\<lparr>tasks_h :=
           AList.update i (fst (new_obj (TaskObj ?task) w)) (tasks_h (snd (new_obj (TaskObj ?task) w)))\<rparr>"
      have "\<exists>t. deref (heap w2) r = Some (TaskObj t)" if "map_of (tasks_h w2) k = Some r" for k r
      proof (cases "k = i")
        case True
        with that have "r = length (heap w)" by (simp add: w2_def new_obj_def update_conv')
        then show ?thesis by (simp add: w2_def new_obj_def deref_new)
      next
        case False
        with that have "map_of (tasks_h w) k = Some r" by (simp add: w2_def new_obj_def update_conv')
        from typedD[OF Suc.prems(1) this] obtain t where "deref (heap w) r = Some (TaskObj t)" by blast
        then show ?thesis by (simp add: w2_def new_obj_def deref_append)
      qed
      then have t2: "typed w2" unfolding typed_def by blast
      from typed_attach_h[OF t2, of i parentId] obtain w3 where
        a: "attach_h i parentId w2 = Inr w3" and t3: "typed w3" by blast
      with Suc.prems x Some NodeObj
      have "forEach_h (restoreTask_h n) (map (\<lambda>subtaskData. (subtaskData, Some i)) subs) w3 = Some (res, w')"
        by (simp add: w2_def Let_def split: prod.splits)
      with t3 show ?thesis
        by (rule typed_forEach_h[rotated]) (rule Suc.IH)
    qed
  qed
qed

lemma typed_restoreState_h:
  assumes "typed w" "restoreState_h n state w = Some (res, w')"
  shows "typed w'"
proof -
  have c: "typed (w\<lparr>tasks_h := [], rootTaskId_h := None\<rparr>)"
    by (simp add: typed_def)
  from assms show ?thesis
    by (auto simp: restoreState_h_def split: option.splits obj.splits sum.splits
        dest: typed_restoreTask_h[OF c])
qed

lemma typed_mutate: "typed w \<Longrightarrow> mutate n m w = Some w' \<Longrightarrow> typed w'"
  by (cases m) (auto simp: typed_createPlan_h typed_addTask_h typed_updateTask_h
      intro: typed_restoreState_h)

lemma typed_mutate_all: "typed w \<Longrightarrow> mutate_all n ms w = Some w' \<Longrightarrow> typed w'"
proof (induction ms arbitrary: w)
  case Nil
  then show ?case by simp
next
  case (Cons m ms)
  from Cons.prems(2) obtain w1 where 1: "mutate n m w = Some w1" "mutate_all n ms w1 = Some w'"
    by (auto split: option.splits)
  from Cons.IH[OF typed_mutate[OF Cons.prems(1) 1(1)] 1(2)] show ?case .
qed

lemma typed_frames:
  assumes "typed w" "heap w' = heap w @ ext" "tasks_h w' = tasks_h w"
  shows "typed w'"
  using assms unfolding typed_def by (auto intro!: deref_append)

lemma grows_refl [simp]: "grows w w"
  by (simp add: grows_def)

lemma grows_trans: "grows w1 w2 \<Longrightarrow> grows w2 w3 \<Longrightarrow> grows w1 w3"
  unfolding grows_def by auto

lemma new_obj_grows: "new_obj ob w = (r, w') \<Longrightarrow> grows w w'"
  by (auto simp: new_obj_def grows_def)

lemma collect_h_grows:
  assumes "\<And>x w res w'. f x w = Some (res, w') \<Longrightarrow> grows w w'"
  shows "collect_h f xs w = Some (res, w') \<Longrightarrow> grows w w'"
proof (induction xs arbitrary: w res)
  case Nil
  then show ?case by simp
next
  case (Cons x xs)
  from Cons.prems obtain r1 w1 where 1: "f x w = Some (r1, w1)"
    by (auto split: option.splits)
  show ?case
  proof (cases r1)
    case (Inl e)
    with Cons.prems 1 assms[OF 1] show ?thesis by simp
  next
    case (Inr y)
    with Cons.prems 1 obtain r2 where "collect_h f xs w1 = Some (r2, w')"
      by (auto split: option.splits sum.splits)
    from grows_trans[OF assms[OF 1] Cons.IH[OF this]] show ?thesis .
  qed
qed

lemma buildTree_h_grows: "buildTree_h n k w = Some (res, w') \<Longrightarrow> grows w w'"
proof (induction n arbitrary: k w res w')
  case 0
  then show ?case by simp
next
  case (Suc n)
  have c: "grows w w1" if "collect_h (buildTree_h n) xs w = Some (r1, w1)" for xs r1 w1
    using that by (rule collect_h_grows[rotated]) (rule Suc.IH)
  from Suc.prems show ?case
    by (auto simp: Let_def split: option.splits obj.splits sum.splits prod.splits
        dest!: c new_obj_grows intro: grows_trans)
qed

lemma getPlanState_h_grows: "getPlanState_h n w = Some (res, w') \<Longrightarrow> grows w w'"
  by (auto simp: getPlanState_h_def split: if_splits prod.splits
      dest: buildTree_h_grows new_obj_grows)

lemma parse_node_grows:
  "parse_node t w = (r, w') \<Longrightarrow> grows w w'"
  "parse_nodes cs w = (rs, w') \<Longrightarrow> grows w w'"
proof (induction t w and cs w arbitrary: r w' and rs w' rule: parse_node_parse_nodes.induct)
  case (1 i d s nt res subs w)
  obtain kids w1 where k: "parse_nodes subs w = (kids, w1)" by (cases "parse_nodes subs w")
  from "1.prems" k have "new_obj (NodeObj i d s nt res kids) w1 = (r, w')" by simp
  from grows_trans[OF "1.IH"[OF k] new_obj_grows[OF this]] show ?case .
next
  case (2 w)
  then show ?case by simp
next
  case (3 c cs w)
  obtain k w1 where k: "parse_node c w = (k, w1)" by (cases "parse_node c w")
  obtain ks w2 where ks: "parse_nodes cs w1 = (ks, w2)" by (cases "parse_nodes cs w1")
  from "3.prems" k ks have "w' = w2" by simp
  with grows_trans[OF "3.IH"(1)[OF k] "3.IH"(2)[OF k[symmetric] refl ks]] show ?case by simp
qed

lemma JSON_parse_grows: "JSON_parse v w = (r, w') \<Longrightarrow> grows w w'"
  by (cases v) (auto dest: new_obj_grows parse_node_grows)

lemma createCheckpoint_h_grows:
  assumes "createCheckpoint_h fuel name description now w = Some (res, w')"
  shows "grows w w'"
proof -
  let ?w = "w\<lparr>nextId_h := nextId_h w + 1\<rparr>"
  have 0: "grows w ?w" by (simp add: grows_def)
  from assms obtain rg wg where g: "getPlanState_h fuel ?w = Some (rg, wg)"
    by (auto simp: createCheckpoint_h_def Let_def split: option.splits)
  note 1 = grows_trans[OF 0 getPlanState_h_grows[OF g]]
  show ?thesis
  proof (cases rg)
    case (Inl e)
    with assms g 1 show ?thesis by (simp add: createCheckpoint_h_def Let_def)
  next
    case (Inr r0)
    with assms g obtain v where s: "JSON_stringify fuel (heap wg) r0 = Some v"
      by (auto simp: createCheckpoint_h_def Let_def split: option.splits)
    obtain copy w3 where p: "JSON_parse v wg = (copy, w3)" by (cases "JSON_parse v wg")
    from assms g Inr s p obtain cp where "w' = w3\<lparr>checkpoints_h := checkpoints_h w3 @ [cp]\<rparr>"
      by (auto simp: createCheckpoint_h_def Let_def)
    then have "grows w3 w'" by (simp add: grows_def)
    with grows_trans[OF 1 JSON_parse_grows[OF p]] show ?thesis by (rule grows_trans)
  qed
qed

lemma typed_grows: "typed w \<Longrightarrow> grows w w' \<Longrightarrow> typed w'"
  unfolding typed_def grows_def by (metis deref_append)

lemma typed_createCheckpoint_h:
  "typed w \<Longrightarrow> createCheckpoint_h fuel name description now w = Some (res, w') \<Longrightarrow> typed w'"
  by (blast intro: typed_grows createCheckpoint_h_grows)

lemmas heap_eval =
  example_world_def example_mutations_def new_World_def createPlan_h_def addTask_h_def updateTask_h_def
  restoreState_h_def attach_h_def createCheckpoint_h_def getPlanState_h_def JSON_stringify_def
  new_obj_def deref_def toString.simps digit_def Let_def numeral_2_eq_2 numeral_3_eq_3

text \<open>
  A checkpoint of the two-task plan, followed by an added task, an update, a restore from
  the checkpoint's own object, another added task and a new plan: the stored state
  still reads as the two-task tree.
\<close>

theorem createCheckpoint_h_isolated_witness:
  "\<exists>w1 w2. createCheckpoint_h 2 ''cp1'' None 7 example_world = Some (Inr ''cp_1'', w1) \<and>
      mutate_all 3 example_mutations w1 = Some w2 \<and>
      (\<exists>cp. checkpoints_h w2 = [cp] \<and> cph_id cp = ''cp_1'' \<and> cph_state cp = 5 \<and>
         JSON_stringify 2 (heap w2) (cph_state cp) =
           Some (TreeState (TaskNode ''1'' ''Build X'' ''pending'' None None
                              [TaskNode ''2'' ''Step A'' ''pending'' None None []])))"
proof -
  have "\<exists>w1. createCheckpoint_h 2 ''cp1'' None 7 example_world = Some (Inr ''cp_1'', w1) \<and>
           cph_state (last (checkpoints_h w1)) = 5 \<and>
           (\<exists>w2. mutate_all 3 example_mutations w1 = Some w2)"
    by (simp add: heap_eval)
  then obtain w1 w2 where c: "createCheckpoint_h 2 ''cp1'' None 7 example_world = Some (Inr ''cp_1'', w1)"
    and l: "cph_state (last (checkpoints_h w1)) = 5"
    and m: "mutate_all 3 example_mutations w1 = Some w2"
    by blast
  have g: "getPlanState_h 2 (example_world\<lparr>nextId_h := nextId_h example_world + 1\<rparr>) = Some (Inr r0, wg) \<Longrightarrow>
        JSON_stringify 2 (heap wg) r0 =
           Some (TreeState (TaskNode ''1'' ''Build X'' ''pending'' None None
                              [TaskNode ''2'' ''Step A'' ''pending'' None None []]))" for r0 wg
    by (auto simp: heap_eval)
  have e: "checkpoints_h example_world = []"
    by (simp add: heap_eval)
  from createCheckpoint_h_isolated[OF c m] obtain cp v r0 wg where
    r: "checkpoints_h w1 = checkpoints_h example_world @ [cp]" "cph_id cp = ''cp_1''"
       "getPlanState_h 2 (example_world\<lparr>nextId_h := nextId_h example_world + 1\<rparr>) = Some (Inr r0, wg)"
       "JSON_stringify 2 (heap wg) r0 = Some v"
       "checkpoints_h w2 = checkpoints_h w1"
       "JSON_stringify 2 (heap w2) (cph_state cp) = Some v"
    by blast
  from g[OF r(3)] r(4) have "v = TreeState (TaskNode ''1'' ''Build X'' ''pending'' None None
                              [TaskNode ''2'' ''Step A'' ''pending'' None None []])"
    by simp
  with r e l have "checkpoints_h w2 = [cp] \<and> cph_id cp = ''cp_1'' \<and> cph_state cp = 5 \<and>
         JSON_stringify 2 (heap w2) (cph_state cp) =
           Some (TreeState (TaskNode ''1'' ''Build X'' ''pending'' None None
                              [TaskNode ''2'' ''Step A'' ''pending'' None None []]))"
    by simp
  with c m show ?thesis by blast
qed

section \<open>The heap model against the value model\<close>

text \<open>
  The calls of the heap model and of the value model keep a world and a store in the
  relation \<open>abstracts\<close>, with the same outcome: the plan a claim reads in one model is
  the plan it reads in the other. A snapshot is compared through \<open>read_node\<close>, the tree
  read below its reference.
\<close>

lemma abstracts_new: "abstracts new_World new_TaskOrchestrator"
  by (simp add: abstracts_def new_World_def new_TaskOrchestrator_def)

lemma abstracts_Some:
  "abstracts w S \<Longrightarrow> map_of (tasks_h w) k = Some r \<Longrightarrow>
     \<exists>t. deref (heap w) r = Some (TaskObj t) \<and> map_of (tasks S) k = Some t"
  unfolding abstracts_def by blast

lemma abstracts_None: "abstracts w S \<Longrightarrow> map_of (tasks_h w) k = None \<Longrightarrow> map_of (tasks S) k = None"
  unfolding abstracts_def by blast

lemma abstracts_inj:
  "abstracts w S \<Longrightarrow> map_of (tasks_h w) k = Some r \<Longrightarrow> map_of (tasks_h w) k' = Some r \<Longrightarrow> k = k'"
  unfolding abstracts_def by blast

lemma abstracts_length: "abstracts w S \<Longrightarrow> length (tasks S) = length (tasks_h w)"
  unfolding abstracts_def by (metis length_map)

lemma abstracts_valid:
  "abstracts w S \<Longrightarrow> map_of (tasks_h w) k = Some r \<Longrightarrow> r < length (heap w)"
  using abstracts_Some[of w S k r] by (auto simp: deref_def split: if_splits)

lemma createPlan_h_abstracts:
  "fst (createPlan_h goal w) = fst (createPlan goal S) \<and>
   abstracts (snd (createPlan_h goal w)) (snd (createPlan goal S))"
  by (simp add: createPlan_h_def createPlan_def new_obj_def Let_def abstracts_def deref_def)

lemma update_keys_same:
  "map fst al = map fst bl \<Longrightarrow> map fst (AList.update k v al) = map fst (AList.update k v' bl)"
  by (simp add: update_keys)

lemma deref_other: "r \<noteq> pr \<Longrightarrow> deref (h[pr := ob]) r = deref h r"
  by (simp add: deref_def)

lemma deref_written: "pr < length h \<Longrightarrow> deref (h[pr := ob]) pr = Some ob"
  by (simp add: deref_def)

lemma addTask_h_abstracts:
  assumes a: "abstracts w S"
  shows "case addTask d p nt S of
           Inl e \<Rightarrow> addTask_h d p nt w = (Inl e, w)
         | Inr (msg, S') \<Rightarrow> fst (addTask_h d p nt w) = Inr msg \<and> abstracts (snd (addTask_h d p nt w)) S'"
proof (cases "truthy (rootTaskId S)")
  case False
  with a show ?thesis by (simp add: addTask_def addTask_h_def abstracts_def)
next
  case True
  from a have root: "rootTaskId_h w = rootTaskId S" by (simp add: abstracts_def)
  define pk where "pk = (if truthy p then the p else the (rootTaskId S))"
  define newId where "newId = toString (length (tasks S) + 1)"
  have pkh: "(if truthy p then the p else the (rootTaskId_h w)) = pk"
    "(if truthy p then the p else the (rootTaskId S)) = pk"
    using root by (simp_all add: pk_def)
  have len: "length (tasks_h w) = length (tasks S)" using abstracts_length[OF a] by simp
  show ?thesis
  proof (cases "map_of (tasks_h w) pk")
    case None
    with abstracts_None[OF a None] True root show ?thesis
      by (simp add: addTask_def addTask_h_def Let_def pkh del: One_nat_def)
  next
    case (Some pr)
    from abstracts_Some[OF a Some] obtain parent where
      par: "deref (heap w) pr = Some (TaskObj parent)" "map_of (tasks S) pk = Some parent"
      by blast
    from abstracts_valid[OF a Some] have pr: "pr < length (heap w)" .
    define newTask where "newTask = \<lparr>t_id = newId, t_description = d, t_status = ''pending'',
        t_parentId = Some (t_id parent), t_notes = nt, t_result = None, t_subtasks = []\<rparr>"
    define parent' where "parent' = parent\<lparr>t_subtasks := t_subtasks parent @ [newId]\<rparr>"
    define msg where "msg = ''Added task '' @ newId @ '': '' @ [CHR 0x22] @ d @ [CHR 0x22]
               @ '' to parent '' @ t_id parent"
    define w3 where "w3 = w\<lparr>heap := (heap w @ [TaskObj newTask])[pr := TaskObj parent'],
         tasks_h := AList.update newId (length (heap w)) (tasks_h w)\<rparr>"
    define S' where "S' = S\<lparr>tasks := (if pk = newId then AList.update newId newTask (tasks S)
         else AList.update pk parent' (AList.update newId newTask (tasks S)))\<rparr>"
    have rh: "addTask_h d p nt w = (Inr msg, w3)"
      using True root Some par(1) len
      by (simp add: addTask_h_def Let_def pkh new_obj_def newTask_def w3_def parent'_def msg_def
          newId_def)
    have rv: "addTask d p nt S = Inr (msg, S')"
      using True par(2)
      by (simp add: addTask_def Let_def pkh newTask_def S'_def parent'_def msg_def newId_def)
    have keys: "map fst (tasks S') = map fst (tasks_h w3)"
    proof -
      from a have k0: "map fst (tasks S) = map fst (tasks_h w)" by (simp add: abstracts_def)
      have k1: "map fst (AList.update newId newTask (tasks S)) = map fst (tasks_h w3)"
        unfolding w3_def using update_keys_same[OF k0] by simp
      have "pk \<in> fst ` set (AList.update newId newTask (tasks S))"
        using map_of_Some_key_mem[OF par(2)] by (simp add: dom_update)
      then have "map fst (AList.update pk parent' (AList.update newId newTask (tasks S))) =
            map fst (AList.update newId newTask (tasks S))"
        by (rule update_keys_mem)
      with k1 show ?thesis by (simp add: S'_def)
    qed
    have mS: "map_of (tasks S') = (if pk = newId then (map_of (tasks S))(newId \<mapsto> newTask)
                 else (map_of (tasks S))(newId \<mapsto> newTask, pk \<mapsto> parent'))"
      by (simp add: S'_def update_conv')
    have mh: "map_of (tasks_h w3) = (map_of (tasks_h w))(newId \<mapsto> length (heap w))"
      by (simp add: w3_def update_conv')
    have "abstracts w3 S'"
      unfolding abstracts_def
    proof (intro conjI allI impI)
      show "rootTaskId S' = rootTaskId_h w3" using root by (simp add: S'_def w3_def)
      show "map fst (tasks S') = map fst (tasks_h w3)" by (rule keys)
    next
      fix k assume "map_of (tasks_h w3) k = None"
      then have k: "k \<noteq> newId" "map_of (tasks_h w) k = None" by (auto simp: mh split: if_splits)
      with Some have "k \<noteq> pk" by auto
      with k abstracts_None[OF a k(2)] show "map_of (tasks S') k = None" by (simp add: mS)
    next
      fix k r assume kr: "map_of (tasks_h w3) k = Some r"
      show "\<exists>t. deref (heap w3) r = Some (TaskObj t) \<and> map_of (tasks S') k = Some t"
      proof (cases "k = newId")
        case True
        with kr have "r = length (heap w)" by (simp add: mh)
        with pr have "deref (heap w3) r = Some (TaskObj newTask)"
          by (simp add: w3_def deref_def nth_append)
        moreover
        have "map_of (tasks S') k = Some newTask"
          using True by (simp add: mS)
        ultimately show ?thesis by blast
      next
        case False
        with kr have old: "map_of (tasks_h w) k = Some r" by (simp add: mh)
        from abstracts_Some[OF a old] obtain t where
          t: "deref (heap w) r = Some (TaskObj t)" "map_of (tasks S) k = Some t" by blast
        show ?thesis
        proof (cases "k = pk")
          case True
          with old Some have "r = pr" by simp
          with pr have "deref (heap w3) r = Some (TaskObj parent')"
            by (simp add: w3_def deref_def)
          with True False show ?thesis by (simp add: mS)
        next
          case k: False
          with old Some abstracts_inj[OF a old] have "r \<noteq> pr" by blast
          with t(1) have "deref (heap w3) r = Some (TaskObj t)"
            by (simp add: w3_def deref_other deref_append)
          with k False t(2) show ?thesis by (simp add: mS)
        qed
      qed
    next
      fix k k' r assume "map_of (tasks_h w3) k = Some r" "map_of (tasks_h w3) k' = Some r"
      then show "k = k'"
        by (auto simp: mh split: if_splits dest: abstracts_valid[OF a] abstracts_inj[OF a])
    qed
    with rh rv show ?thesis by simp
  qed
qed

lemma abstracts_write:
  assumes a: "abstracts w S" and k: "map_of (tasks_h w) k = Some r"
  shows "abstracts (w\<lparr>heap := (heap w)[r := TaskObj t']\<rparr>) (S\<lparr>tasks := AList.update k t' (tasks S)\<rparr>)"
proof -
  from abstracts_Some[OF a k] obtain t where t: "deref (heap w) r = Some (TaskObj t)"
    "map_of (tasks S) k = Some t" by blast
  from abstracts_valid[OF a k] have r: "r < length (heap w)" .
  show ?thesis
    unfolding abstracts_def
  proof (intro conjI allI impI)
    show "rootTaskId (S\<lparr>tasks := AList.update k t' (tasks S)\<rparr>) =
          rootTaskId_h (w\<lparr>heap := (heap w)[r := TaskObj t']\<rparr>)"
      using a by (simp add: abstracts_def)
    show "map fst (tasks (S\<lparr>tasks := AList.update k t' (tasks S)\<rparr>)) =
          map fst (tasks_h (w\<lparr>heap := (heap w)[r := TaskObj t']\<rparr>))"
      using a update_keys_mem[OF map_of_Some_key_mem[OF t(2)], of t'] by (simp add: abstracts_def)
  next
    fix j assume "map_of (tasks_h (w\<lparr>heap := (heap w)[r := TaskObj t']\<rparr>)) j = None"
    then have j: "map_of (tasks_h w) j = None" by simp
    with k have "j \<noteq> k" by auto
    with abstracts_None[OF a j]
    show "map_of (tasks (S\<lparr>tasks := AList.update k t' (tasks S)\<rparr>)) j = None"
      by (simp add: update_conv')
  next
    fix j q assume "map_of (tasks_h (w\<lparr>heap := (heap w)[r := TaskObj t']\<rparr>)) j = Some q"
    then have j: "map_of (tasks_h w) j = Some q" by simp
    show "\<exists>t. deref (heap (w\<lparr>heap := (heap w)[r := TaskObj t']\<rparr>)) q = Some (TaskObj t) \<and>
              map_of (tasks (S\<lparr>tasks := AList.update k t' (tasks S)\<rparr>)) j = Some t"
    proof (cases "j = k")
      case True
      with j k have "q = r" by simp
      with True r show ?thesis by (simp add: deref_written update_conv')
    next
      case False
      with abstracts_inj[OF a j] k have "q \<noteq> r" by blast
      with False abstracts_Some[OF a j] show ?thesis by (simp add: deref_other update_conv')
    qed
  next
    fix j j' q
    assume "map_of (tasks_h (w\<lparr>heap := (heap w)[r := TaskObj t']\<rparr>)) j = Some q"
      "map_of (tasks_h (w\<lparr>heap := (heap w)[r := TaskObj t']\<rparr>)) j' = Some q"
    then show "j = j'" using abstracts_inj[OF a] by simp
  qed
qed

lemma updateTask_h_abstracts:
  assumes a: "abstracts w S"
  shows "case updateTask i u S of
           Inl e \<Rightarrow> updateTask_h i u w = (Inl e, w)
         | Inr (msg, S') \<Rightarrow> fst (updateTask_h i u w) = Inr msg \<and> abstracts (snd (updateTask_h i u w)) S'"
proof (cases "map_of (tasks_h w) i")
  case None
  with abstracts_None[OF a None] show ?thesis
    by (simp add: updateTask_def updateTask_h_def)
next
  case (Some tr)
  from abstracts_Some[OF a Some] obtain task where
    t: "deref (heap w) tr = Some (TaskObj task)" "map_of (tasks S) i = Some task" by blast
  show ?thesis
    using Some t abstracts_write[OF a Some]
    by (simp add: updateTask_def updateTask_h_def Let_def)
qed

lemma abstracts_grows:
  assumes a: "abstracts w S" and g: "grows w w'"
  shows "abstracts w' S"
proof -
  from g obtain ext where e: "heap w' = heap w @ ext" "tasks_h w' = tasks_h w"
    "rootTaskId_h w' = rootTaskId_h w"
    unfolding grows_def by blast
  show ?thesis
    unfolding abstracts_def e
  proof (intro conjI allI impI)
    show "rootTaskId S = rootTaskId_h w" "map fst (tasks S) = map fst (tasks_h w)"
      using a by (simp_all add: abstracts_def)
  next
    fix k assume "map_of (tasks_h w) k = None"
    then show "map_of (tasks S) k = None" by (rule abstracts_None[OF a])
  next
    fix k r assume k: "map_of (tasks_h w) k = Some r"
    from abstracts_Some[OF a k] obtain t where "deref (heap w) r = Some (TaskObj t)"
      "map_of (tasks S) k = Some t" by blast
    then show "\<exists>t. deref (heap w @ ext) r = Some (TaskObj t) \<and> map_of (tasks S) k = Some t"
      by (auto intro: deref_append)
  next
    fix k k' r assume "map_of (tasks_h w) k = Some r" "map_of (tasks_h w) k' = Some r"
    then show "k = k'" by (rule abstracts_inj[OF a])
  qed
qed

lemma grows_keeps: "grows w w' \<Longrightarrow> keeps (heap w) (heap w')"
  unfolding grows_def by auto

lemma collect_h_simulates:
  assumes step: "\<And>x w. abstracts w S \<Longrightarrow>
      (case f x of
         None \<Rightarrow> g x w = None
       | Some (Inl e) \<Rightarrow> (\<exists>w'. g x w = Some (Inl e, w'))
       | Some (Inr t) \<Rightarrow> (\<exists>r w'. g x w = Some (Inr r, w') \<and> read_node n (heap w') r = Some t))"
    and gr: "\<And>x w res w'. g x w = Some (res, w') \<Longrightarrow> grows w w'"
  shows "abstracts w S \<Longrightarrow>
      (case collect f xs of
         None \<Rightarrow> collect_h g xs w = None
       | Some (Inl e) \<Rightarrow> (\<exists>w'. collect_h g xs w = Some (Inl e, w'))
       | Some (Inr ts) \<Rightarrow>
           (\<exists>rs w'. collect_h g xs w = Some (Inr rs, w') \<and>
              list_all2 (\<lambda>r t. read_node n (heap w') r = Some t) rs ts))"
proof (induction xs arbitrary: w)
  case Nil
  show ?case by simp
next
  case (Cons x xs)
  note s = step[OF Cons.prems, of x]
  show ?case
  proof (cases "f x")
    case None
    with s show ?thesis by simp
  next
    case (Some fx)
    show ?thesis
    proof (cases fx)
      case (Inl e)
      with Some s show ?thesis by auto
    next
      case (Inr t)
      with Some s obtain r w1 where 1: "g x w = Some (Inr r, w1)" "read_node n (heap w1) r = Some t"
        by auto
      from gr[OF 1(1)] have g1: "grows w w1" .
      note ih = Cons.IH[OF abstracts_grows[OF Cons.prems g1]]
      show ?thesis
      proof (cases "collect f xs")
        case None
        with ih Some Inr 1 show ?thesis by simp
      next
        case c: (Some cs)
        show ?thesis
        proof (cases cs)
          case (Inl e)
          with c ih Some Inr 1 show ?thesis by auto
        next
          case cr: (Inr ts)
          with c ih obtain rs w2 where 2: "collect_h g xs w1 = Some (Inr rs, w2)"
            "list_all2 (\<lambda>r t. read_node n (heap w2) r = Some t) rs ts"
            by auto
          from collect_h_grows[of g, OF gr 2(1)] have "keeps (heap w1) (heap w2)"
            by (rule grows_keeps)
          from read_node_keeps[OF this 1(2)] have "read_node n (heap w2) r = Some t" .
          with 1 2 c cr Some Inr show ?thesis by simp
        qed
      qed
    qed
  qed
qed

lemma buildTree_h_simulates:
  "abstracts w S \<Longrightarrow>
     (case buildTree n (tasks S) k of
        None \<Rightarrow> buildTree_h n k w = None
      | Some (Inl e) \<Rightarrow> (\<exists>w'. buildTree_h n k w = Some (Inl e, w'))
      | Some (Inr t) \<Rightarrow> (\<exists>r w'. buildTree_h n k w = Some (Inr r, w') \<and> read_node (Suc n) (heap w') r = Some t))"
proof (induction n arbitrary: k w)
  case 0
  show ?case by simp
next
  case (Suc n)
  show ?case
  proof (cases "map_of (tasks_h w) k")
    case None
    with abstracts_None[OF Suc.prems None] show ?thesis by simp
  next
    case (Some tr)
    from abstracts_Some[OF Suc.prems Some] obtain task where
      t: "deref (heap w) tr = Some (TaskObj task)" "map_of (tasks S) k = Some task" by blast
    have c: "case collect (buildTree n (tasks S)) (t_subtasks task) of
         None \<Rightarrow> collect_h (buildTree_h n) (t_subtasks task) w = None
       | Some (Inl e) \<Rightarrow> (\<exists>w'. collect_h (buildTree_h n) (t_subtasks task) w = Some (Inl e, w'))
       | Some (Inr ts) \<Rightarrow>
           (\<exists>rs w'. collect_h (buildTree_h n) (t_subtasks task) w = Some (Inr rs, w') \<and>
              list_all2 (\<lambda>r t. read_node (Suc n) (heap w') r = Some t) rs ts)"
      using Suc.prems
    proof (rule collect_h_simulates[rotated 2])
      show "case buildTree n (tasks S) x of
         None \<Rightarrow> buildTree_h n x w0 = None
       | Some (Inl e) \<Rightarrow> (\<exists>w'. buildTree_h n x w0 = Some (Inl e, w'))
       | Some (Inr t) \<Rightarrow> (\<exists>r w'. buildTree_h n x w0 = Some (Inr r, w') \<and>
            read_node (Suc n) (heap w') r = Some t)" if "abstracts w0 S" for x w0
        using that by (rule Suc.IH)
      show "grows w0 w'" if "buildTree_h n x w0 = Some (res, w')" for x w0 res w'
        using that by (rule buildTree_h_grows)
    qed
    show ?thesis
    proof (cases "collect (buildTree n (tasks S)) (t_subtasks task)")
      case None
      with c Some t show ?thesis by simp
    next
      case cs: (Some r)
      show ?thesis
      proof (cases r)
        case (Inl e)
        with cs c Some t show ?thesis by auto
      next
        case (Inr ts)
        with cs c obtain rs w1 where 1: "collect_h (buildTree_h n) (t_subtasks task) w = Some (Inr rs, w1)"
          "list_all2 (\<lambda>r t. read_node (Suc n) (heap w1) r = Some t) rs ts"
          by auto
        let ?ob = "NodeObj (t_id task) (t_description task) (t_status task) (t_notes task) (t_result task) rs"
        let ?w2 = "w1\<lparr>heap := heap w1 @ [?ob]\<rparr>"
        have b: "buildTree_h (Suc n) k w = Some (Inr (length (heap w1)), ?w2)"
          using Some t 1(1) by (simp add: new_obj_def)
        have "list_all2 (\<lambda>r t. read_node (Suc n) (heap ?w2) r = Some t) rs ts"
          using 1(2) by (rule list_all2_mono) (auto intro: read_node_keeps[rotated] simp del: read_node.simps)
        moreover have "deref (heap ?w2) (length (heap w1)) = Some ?ob"
          by (simp add: deref_new)
        ultimately have "read_node (Suc (Suc n)) (heap ?w2) (length (heap w1)) =
            Some (TaskNode (t_id task) (t_description task) (t_status task) (t_notes task) (t_result task) ts)"
          unfolding read_node_Suc[of "Suc n"] by blast
        with b cs Inr t(2) show ?thesis by (simp del: read_node.simps buildTree_h.simps)
      qed
    qed
  qed
qed

lemma getPlanState_h_simulates:
  assumes a: "abstracts w S"
  shows "case getPlanState n S of
           None \<Rightarrow> getPlanState_h n w = None
         | Some (Inl e) \<Rightarrow> (\<exists>w'. getPlanState_h n w = Some (Inl e, w'))
         | Some (Inr v) \<Rightarrow>
             (\<exists>r w'. getPlanState_h n w = Some (Inr r, w') \<and> JSON_stringify (Suc n) (heap w') r = Some v)"
proof (cases "truthy (rootTaskId S)")
  case False
  with a show ?thesis
    by (simp add: getPlanState_def getPlanState_h_def abstracts_def new_obj_def JSON_stringify_def deref_new)
next
  case True
  from a have root: "rootTaskId_h w = rootTaskId S" by (simp add: abstracts_def)
  note b = buildTree_h_simulates[OF a, of n "the (rootTaskId S)"]
  show ?thesis
  proof (cases "buildTree n (tasks S) (the (rootTaskId S))")
    case None
    with b True root show ?thesis by (simp add: getPlanState_def getPlanState_h_def)
  next
    case (Some r)
    show ?thesis
    proof (cases r)
      case (Inl e)
      with Some b True root show ?thesis by (auto simp: getPlanState_def getPlanState_h_def)
    next
      case (Inr t)
      with Some b obtain r0 w' where 1: "buildTree_h n (the (rootTaskId S)) w = Some (Inr r0, w')"
        "read_node (Suc n) (heap w') r0 = Some t"
        by auto
      from 1(2) obtain i d s nt res subs where "deref (heap w') r0 = Some (NodeObj i d s nt res subs)"
        unfolding read_node_Suc by blast
      with 1 Some Inr True root show ?thesis
        by (simp add: getPlanState_def getPlanState_h_def JSON_stringify_def del: read_node.simps)
    qed
  qed
qed

lemma abstracts_alloc:
  assumes a: "abstracts w S"
  shows "abstracts (w\<lparr>heap := heap w @ [TaskObj t], tasks_h := AList.update k (length (heap w)) (tasks_h w)\<rparr>)
           (S\<lparr>tasks := AList.update k t (tasks S)\<rparr>)"
  unfolding abstracts_def
proof (intro conjI allI impI)
  let ?w = "w\<lparr>heap := heap w @ [TaskObj t], tasks_h := AList.update k (length (heap w)) (tasks_h w)\<rparr>"
  let ?S = "S\<lparr>tasks := AList.update k t (tasks S)\<rparr>"
  show "rootTaskId ?S = rootTaskId_h ?w" using a by (simp add: abstracts_def)
  from a have "map fst (tasks S) = map fst (tasks_h w)" by (simp add: abstracts_def)
  from update_keys_same[OF this] show "map fst (tasks ?S) = map fst (tasks_h ?w)" by simp
  show "map_of (tasks ?S) j = None" if "map_of (tasks_h ?w) j = None" for j
  proof -
    from that have "j \<noteq> k" "map_of (tasks_h w) j = None"
      by (auto simp: update_conv' split: if_splits)
    with abstracts_None[OF a this(2)] show ?thesis by (simp add: update_conv')
  qed
  show "\<exists>u. deref (heap ?w) r = Some (TaskObj u) \<and> map_of (tasks ?S) j = Some u"
    if "map_of (tasks_h ?w) j = Some r" for j r
  proof (cases "j = k")
    case True
    with that have "r = length (heap w)" by (simp add: update_conv')
    with True show ?thesis by (simp add: update_conv' deref_new)
  next
    case False
    with that have old: "map_of (tasks_h w) j = Some r" by (simp add: update_conv')
    from abstracts_Some[OF a old] obtain u where
      "deref (heap w) r = Some (TaskObj u)" "map_of (tasks S) j = Some u" by blast
    with False show ?thesis by (simp add: update_conv' deref_append)
  qed
  show "j = j'" if "map_of (tasks_h ?w) j = Some r" "map_of (tasks_h ?w) j' = Some r" for j j' r
  proof (cases "r = length (heap w)")
    case True
    have "j = k" if "map_of (tasks_h ?w) j = Some (length (heap w))" for j
    proof (rule ccontr)
      assume "j \<noteq> k"
      with that have "map_of (tasks_h w) j = Some (length (heap w))" by (simp add: update_conv')
      from abstracts_valid[OF a this] show False by simp
    qed
    with that True show ?thesis by blast
  next
    case False
    with that have "j \<noteq> k" "j' \<noteq> k" by (auto simp: update_conv' split: if_splits)
    with that have "map_of (tasks_h w) j = Some r" "map_of (tasks_h w) j' = Some r"
      by (simp_all add: update_conv')
    then show ?thesis by (rule abstracts_inj[OF a])
  qed
qed

lemma attach_h_simulates:
  assumes a: "abstracts w S"
  shows "\<exists>w'. attach_h i p w = Inr w' \<and> keeps (heap w) (heap w') \<and>
           abstracts w'
             (if \<not> truthy p then S\<lparr>rootTaskId := Some i\<rparr>
              else case map_of (tasks S) (the p) of
                     None \<Rightarrow> S
                   | Some parent \<Rightarrow>
                       S\<lparr>tasks := AList.update (the p)
                                    (parent\<lparr>t_subtasks := t_subtasks parent @ [i]\<rparr>) (tasks S)\<rparr>)"
proof (cases "truthy p")
  case False
  with a show ?thesis by (simp add: attach_h_def abstracts_def)
next
  case True
  show ?thesis
  proof (cases "map_of (tasks_h w) (the p)")
    case None
    with abstracts_None[OF a None] True a show ?thesis by (simp add: attach_h_def)
  next
    case (Some pr)
    from abstracts_Some[OF a Some] obtain parent where
      par: "deref (heap w) pr = Some (TaskObj parent)" "map_of (tasks S) (the p) = Some parent"
      by blast
    from abstracts_write[OF a Some, of "parent\<lparr>t_subtasks := t_subtasks parent @ [i]\<rparr>"]
      keeps_update[OF par(1)] True Some par
    show ?thesis by (simp add: attach_h_def)
  qed
qed

lemma forEach_restore_simulates:
  assumes step: "\<And>r t w S. abstracts w S \<Longrightarrow> read_node n (heap w) r = Some t \<Longrightarrow>
      \<exists>w'. f (r, Some i) w = Some (Inr (), w') \<and> abstracts w' (restoreTask t (Some i) S) \<and>
           keeps (heap w) (heap w')"
  shows "list_all2 (\<lambda>x y. read_node n (heap w) x = Some y) subs kids \<Longrightarrow> abstracts w S \<Longrightarrow>
     \<exists>w'. forEach_h f (map (\<lambda>subtaskData. (subtaskData, Some i)) subs) w = Some (Inr (), w') \<and>
          abstracts w' (restoreSubtasks kids i S) \<and> keeps (heap w) (heap w')"
proof (induction subs arbitrary: kids w S)
  case Nil
  then show ?case by simp
next
  case (Cons x xs)
  from Cons.prems(1) obtain y ys where k: "kids = y # ys" "read_node n (heap w) x = Some y"
    "list_all2 (\<lambda>x y. read_node n (heap w) x = Some y) xs ys"
    by (auto simp: list_all2_Cons1)
  from step[OF Cons.prems(2) k(2)] obtain w1 where 1: "f (x, Some i) w = Some (Inr (), w1)"
    "abstracts w1 (restoreTask y (Some i) S)" "keeps (heap w) (heap w1)" by blast
  have "list_all2 (\<lambda>x y. read_node n (heap w1) x = Some y) xs ys"
    using k(3) by (rule list_all2_mono) (rule read_node_keeps[OF 1(3)])
  from Cons.IH[OF this 1(2)] obtain w2 where 2:
    "forEach_h f (map (\<lambda>subtaskData. (subtaskData, Some i)) xs) w1 = Some (Inr (), w2)"
    "abstracts w2 (restoreSubtasks ys i (restoreTask y (Some i) S))" "keeps (heap w1) (heap w2)"
    by blast
  from 1 2 k(1) keeps_trans[OF 1(3) 2(3)] show ?case by simp
qed

lemma restoreTask_h_simulates:
  "abstracts w S \<Longrightarrow> read_node n (heap w) r = Some t \<Longrightarrow>
     \<exists>w'. restoreTask_h n (r, p) w = Some (Inr (), w') \<and> abstracts w' (restoreTask t p S) \<and>
          keeps (heap w) (heap w')"
proof (induction n arbitrary: w S r t p)
  case 0
  then show ?case by simp
next
  case (Suc n)
  from Suc.prems(2) obtain i d s nt res subs kids where
    t: "deref (heap w) r = Some (NodeObj i d s nt res subs)"
       "list_all2 (\<lambda>x y. read_node n (heap w) x = Some y) subs kids" "t = TaskNode i d s nt res kids"
    unfolding read_node_Suc by blast
  define task where "task = \<lparr>t_id = i, t_description = d, t_status = s, t_parentId = p,
                   t_notes = nt, t_result = res, t_subtasks = []\<rparr>"
  define w2 where "w2 = w\<lparr>heap := heap w @ [TaskObj task],
      tasks_h := AList.update i (length (heap w)) (tasks_h w)\<rparr>"
  define S1 where "S1 = S\<lparr>tasks := AList.update i task (tasks S)\<rparr>"
  have a2: "abstracts w2 S1" unfolding w2_def S1_def using Suc.prems(1) by (rule abstracts_alloc)
  have k2: "keeps (heap w) (heap w2)" by (simp add: w2_def)
  define S2 where "S2 = (if \<not> truthy p then S1\<lparr>rootTaskId := Some i\<rparr>
              else case map_of (tasks S1) (the p) of
                     None \<Rightarrow> S1
                   | Some parent \<Rightarrow>
                       S1\<lparr>tasks := AList.update (the p)
                                    (parent\<lparr>t_subtasks := t_subtasks parent @ [i]\<rparr>) (tasks S1)\<rparr>)"
  from attach_h_simulates[OF a2, of i p] obtain w3 where 3: "attach_h i p w2 = Inr w3"
    "keeps (heap w2) (heap w3)" "abstracts w3 S2"
    unfolding S2_def by blast
  have k3: "keeps (heap w) (heap w3)" using k2 3(2) by (rule keeps_trans)
  have "list_all2 (\<lambda>x y. read_node n (heap w3) x = Some y) subs kids"
    using t(2) by (rule list_all2_mono) (rule read_node_keeps[OF k3])
  from forEach_restore_simulates[of n "restoreTask_h n" i, OF Suc.IH this 3(3)]
  obtain w4 where 4:
    "forEach_h (restoreTask_h n) (map (\<lambda>subtaskData. (subtaskData, Some i)) subs) w3 = Some (Inr (), w4)"
    "abstracts w4 (restoreSubtasks kids i S2)" "keeps (heap w3) (heap w4)"
    by blast
  have h: "restoreTask_h (Suc n) (r, p) w = Some (Inr (), w4)"
    using t(1) 3(1) 4(1) by (simp add: new_obj_def task_def[symmetric] w2_def[symmetric])
  have v: "restoreTask t p S = restoreSubtasks kids i S2"
    unfolding t(3) S2_def S1_def task_def by (simp add: Let_def)
  from h v 4(2) keeps_trans[OF k3 4(3)] show ?case by simp
qed

lemma restoreState_h_simulates:
  assumes a: "abstracts w S" and r: "JSON_stringify n (heap w) r = Some v"
  shows "case restoreState (Some v) S of
           Inl e \<Rightarrow> restoreState_h n (Some r) w = Some (Inl e, w)
         | Inr (msg, S') \<Rightarrow>
             (\<exists>w'. restoreState_h n (Some r) w = Some (Inr msg, w') \<and> abstracts w' S' \<and>
                   keeps (heap w) (heap w'))"
proof (cases v)
  case ErrorState
  with r have "deref (heap w) r = Some ErrorObj"
    by (auto simp: JSON_stringify_def split: option.splits obj.splits)
  with ErrorState show ?thesis by (simp add: restoreState_def restoreState_h_def)
next
  case (TreeState t)
  with r obtain i d s nt res subs where
    d: "deref (heap w) r = Some (NodeObj i d s nt res subs)" "read_node n (heap w) r = Some t"
    by (auto simp: JSON_stringify_def split: option.splits obj.splits)
  let ?w0 = "w\<lparr>tasks_h := [], rootTaskId_h := None\<rparr>"
  let ?S0 = "S\<lparr>tasks := [], rootTaskId := None\<rparr>"
  have a0: "abstracts ?w0 ?S0" by (simp add: abstracts_def)
  from d(2) have "read_node n (heap ?w0) r = Some t" by simp
  from restoreTask_h_simulates[OF a0 this, of None] obtain w' where
    1: "restoreTask_h n (r, None) ?w0 = Some (Inr (), w')" "abstracts w' (restoreTask t None ?S0)"
       "keeps (heap w) (heap w')"
    by auto
  from abstracts_length[OF 1(2)] 1 d(1) TreeState show ?thesis
    by (simp add: restoreState_def restoreState_h_def Let_def)
qed

section \<open>A throw of \<open>restoreState\<close> caught by \<open>restoreCheckpoint\<close>, on the heap\<close>

text \<open>
  Whenever \<open>restoreCheckpoint\<close> returns, it returns a result and not a throw, and it
  has written to no snapshot object and not to the checkpoint list.
\<close>

lemma restoreCheckpoint_h_returns_result:
  assumes "restoreCheckpoint_h fuel sim checkpointId description w = Some (out, w')"
  shows "(\<exists>res. out = Inr res) \<and> frames w w'"
proof (cases "resolveCheckpoint_h sim checkpointId description (checkpoints_h w)")
  case None
  with assms show ?thesis by (auto simp: restoreCheckpoint_h_def)
next
  case (Some cp)
  show ?thesis
  proof (cases "deref (heap w) (cph_state cp) = Some ErrorObj")
    case True
    with Some assms show ?thesis by (auto simp: restoreCheckpoint_h_def)
  next
    case False
    with Some assms obtain r w1 where
      r: "restoreState_h fuel (Some (cph_state cp)) w = Some (r, w1)" and w1: "w' = w1"
      and out: "\<exists>res. out = Inr res"
      by (auto simp: restoreCheckpoint_h_def split: option.splits obj.splits sum.splits)
    from restoreState_h_frames[OF r] w1 out show ?thesis by simp
  qed
qed

text \<open>
  The damaged world is the one the three calls build, with the \<open>subtasks\<close> array of the
  checkpoint's object overwritten.
\<close>

lemma damaged_world_built:
  "createCheckpoint_h 1 ''alpha'' None 0 (snd (createPlan_h ''Build X'' new_World)) = Some (Inr i, w1) \<Longrightarrow>
   (snd (addTask_h ''Step A'' None None w1))
     \<lparr>heap := (heap (snd (addTask_h ''Step A'' None None w1)))
                 [2 := NodeObj ''1'' ''Build X'' ''pending'' None None [9]]\<rparr> = damaged_world"
  by (auto simp: createCheckpoint_h_def getPlanState_h_def createPlan_h_def new_World_def new_obj_def
      JSON_stringify_def deref_def addTask_h_def damaged_world_def toString.simps digit_def Let_def
      numeral_2_eq_2)

text \<open>
  There \<open>restoreState\<close> passes the test of the state, clears the map, restores the root
  and throws a TypeError at the entry that is no object. \<open>restoreCheckpoint\<close> returns
  the failure result, and the plan is the one the throw left: task 2 is gone.
\<close>

lemma restoreCheckpoint_h_catches:
  "restoreCheckpoint_h 2 sim (Some ''cp_1'') None damaged_world =
     Some (Inr \<lparr>r_success = False, r_message = ''Error restoring checkpoint: TypeError''\<rparr>,
           damaged_world
             \<lparr>heap := heap damaged_world @
                 [TaskObj \<lparr>t_id = ''1'', t_description = ''Build X'', t_status = ''pending'',
                           t_parentId = None, t_notes = None, t_result = None, t_subtasks = []\<rparr>],
              tasks_h := [(''1'', 4)], rootTaskId_h := Some ''1''\<rparr>)"
  by (simp add: restoreCheckpoint_h_def resolveCheckpoint_h_def damaged_world_def restoreState_h_def
      deref_def new_obj_def attach_h_def numeral_2_eq_2)

end
